theory Spec2Isabelle
  imports Complex_Main "HOL-Library.AList"
begin

section \<open>A first-order Hidden Markov Model: \<^verbatim>\<open>hmm.py\<close>\<close>

text \<open>
  The class \<^verbatim>\<open>HMM\<close> is embedded as a record of its fields, every method as a function
  that takes the object and returns a value of a sum type: \<open>Inl\<close> carries the exception
  the method raises, \<open>Inr\<close> its result (together with the updated object where the
  method assigns to a field). A call that raises is not followed any further: the model
  says which exception leaves the method, not what the object looks like afterwards.

  Python's \<^verbatim>\<open>dict\<close> keeps its keys in insertion order, and \<^verbatim>\<open>max\<close> over the items of the
  emission table depends on that order. A dictionary is therefore an association list:
  \<open>map_of\<close> reads a key, \<open>AList.update\<close> assigns to one (in place when the key is
  present, at the end when it is new).

  Probabilities are \<^verbatim>\<open>float\<close>s in the source. In this first embedding they are rational
  numbers, so its arithmetic is exact: rounding, overflow and underflow of the machine
  numbers are outside of it. A second embedding, further down, computes with Python's
  numbers; what is proved of the first is a statement over exact arithmetic.
\<close>

subsection \<open>Data\<close>

type_synonym state = string
type_synonym token = string
type_synonym ('k, 'v) dict = "('k \<times> 'v) list"
type_synonym sequence = "(token \<times> state) list"
type_synonym viterbi_graph = "(int, (state, state \<times> rat) dict) dict"

text \<open>
  The source raises the builtin \<^verbatim>\<open>Exception\<close> with a message; one constructor stands for
  each message. The others are the exceptions that the interpreter raises itself.
\<close>

datatype error =
    InvalidStartingState state
  | InvalidStoppingState state
  | InvalidStateInData state
  | EmissionProbsEmpty
  | InvalidIteration int
  | InvalidState state
  | KeyError string
  | KeyErrorInt int
  | IndexError
  | ZeroDivisionError
  | ValueError
  | OverflowError

record HMM =
  end_states :: "state list"
  states :: "state list"
  emission_probs :: "(state, (token, rat) dict) dict"
  transition_probs :: "(state, (state, rat) dict) dict"
  training_words :: "(token, nat) dict"
  transition_cnts :: "(state, (state, nat) dict) dict"

definition UNKNOWN_TOKEN :: token where
  "UNKNOWN_TOKEN = ''#UNK#''"

text \<open>\<^verbatim>\<open>__init__\<close>: the first two given states are the end states.\<close>

definition HMM_init :: "state list \<Rightarrow> HMM" where
  "HMM_init sts =
     \<lparr> end_states = take 2 sts, states = drop 2 sts, emission_probs = [],
       transition_probs = [], training_words = [], transition_cnts = [] \<rparr>"

subsection \<open>Python primitives\<close>

text \<open>\<^verbatim>\<open>xs[i]\<close> for an index that is not negative.\<close>

definition py_get :: "'a list \<Rightarrow> nat \<Rightarrow> error + 'a" where
  "py_get xs i = (if i < length xs then Inr (xs ! i) else Inl IndexError)"

text \<open>\<^verbatim>\<open>d.get(k, 0)\<close> on a dictionary of numbers.\<close>

definition dict_get0 :: "('k, 'v::zero) dict \<Rightarrow> 'k \<Rightarrow> 'v" where
  "dict_get0 d k = (case map_of d k of None \<Rightarrow> 0 | Some v \<Rightarrow> v)"

text \<open>
  The idiom \<^verbatim>\<open>if k not in d: d[k] = 0\<close> followed by \<^verbatim>\<open>d[k] += 1\<close>: a new key is
  appended with count 1, a present key keeps its place.
\<close>

definition dict_incr :: "('k, nat) dict \<Rightarrow> 'k \<Rightarrow> ('k, nat) dict" where
  "dict_incr d k = AList.update k (dict_get0 d k + 1) d"

text \<open>
  \<^verbatim>\<open>max(nodes, key=itemgetter(1))\<close>: the first item whose second component is
  maximal (a later item replaces the current one only when it is strictly greater);
  \<^verbatim>\<open>ValueError\<close> on an empty list.
\<close>

fun max_loop :: "('a \<times> rat) \<Rightarrow> ('a \<times> rat) list \<Rightarrow> ('a \<times> rat)" where
  "max_loop best [] = best"
| "max_loop best (x # xs) = max_loop (if snd x > snd best then x else best) xs"

definition max_itemgetter1 :: "('a \<times> rat) list \<Rightarrow> error + ('a \<times> rat)" where
  "max_itemgetter1 nodes = (case nodes of [] \<Rightarrow> Inl ValueError | x # xs \<Rightarrow> Inr (max_loop x xs))"

subsection \<open>Boundary check\<close>

definition check_end_states :: "HMM \<Rightarrow> sequence \<Rightarrow> error + bool" where
  "check_end_states h ws_deque =
     (case py_get ws_deque 0 of Inl e \<Rightarrow> Inl e | Inr first \<Rightarrow>
      case py_get (end_states h) 0 of Inl e \<Rightarrow> Inl e | Inr start \<Rightarrow>
      if snd first \<noteq> start then Inl (InvalidStartingState (snd first)) else
      case py_get ws_deque (length ws_deque - 1) of Inl e \<Rightarrow> Inl e | Inr final \<Rightarrow>
      case py_get (end_states h) 1 of Inl e \<Rightarrow> Inl e | Inr stop \<Rightarrow>
      if snd final \<noteq> stop then Inl (InvalidStoppingState (snd final)) else Inr True)"

subsection \<open>Emission estimation\<close>

definition calculate_emission_mle :: "rat \<Rightarrow> rat \<Rightarrow> rat \<Rightarrow> error + rat" where
  "calculate_emission_mle word_count state_count smooth_k =
     (if state_count + smooth_k = 0 then Inl ZeroDivisionError
      else Inr (word_count / (state_count + smooth_k)))"

text \<open>
  The inner loop of \<^verbatim>\<open>estimate_emission\<close> over the pairs of one sequence; it carries
  \<^verbatim>\<open>self.training_words\<close> and \<^verbatim>\<open>state_emission_cnts\<close>.
\<close>

fun emission_count_seq ::
  "HMM \<Rightarrow> sequence \<Rightarrow> (token, nat) dict \<times> (state, (token, nat) dict) dict \<Rightarrow>
   error + ((token, nat) dict \<times> (state, (token, nat) dict) dict)" where
  "emission_count_seq h [] acc = Inr acc"
| "emission_count_seq h ((word, state) # rest) (tw, cnts) =
     (if state \<in> set (end_states h) then emission_count_seq h rest (tw, cnts)
      else if state \<notin> set (states h) then Inl (InvalidStateInData state)
      else (case map_of cnts state of
              None \<Rightarrow> Inl (KeyError state)
            | Some row \<Rightarrow>
                emission_count_seq h rest
                  (dict_incr tw word, AList.update state (dict_incr row word) cnts)))"

text \<open>The outer loop over the observations: each sequence is checked, then counted.\<close>

fun emission_count_all ::
  "HMM \<Rightarrow> sequence list \<Rightarrow> (token, nat) dict \<times> (state, (token, nat) dict) dict \<Rightarrow>
   error + ((token, nat) dict \<times> (state, (token, nat) dict) dict)" where
  "emission_count_all h [] acc = Inr acc"
| "emission_count_all h (ws_deque # rest) acc =
     (case check_end_states h ws_deque of Inl e \<Rightarrow> Inl e | Inr _ \<Rightarrow>
      case emission_count_seq h ws_deque acc of Inl e \<Rightarrow> Inl e | Inr acc' \<Rightarrow>
        emission_count_all h rest acc')"

text \<open>The dictionary comprehension that turns the counts of one state into estimates.\<close>

fun emission_row :: "(token, nat) dict \<Rightarrow> rat \<Rightarrow> rat \<Rightarrow> error + (token, rat) dict" where
  "emission_row [] state_cnt smooth_k = Inr []"
| "emission_row ((word, word_cnt) # rest) state_cnt smooth_k =
     (case calculate_emission_mle (of_nat word_cnt) state_cnt smooth_k of
        Inl e \<Rightarrow> Inl e
      | Inr p \<Rightarrow>
          (case emission_row rest state_cnt smooth_k of
             Inl e \<Rightarrow> Inl e
           | Inr row \<Rightarrow> Inr ((word, p) # row)))"

text \<open>
  The last loop of \<^verbatim>\<open>estimate_emission\<close>, over the items of the counts; \<open>probs\<close> starts
  as the deep copy of the counts and has each state's entry replaced.
\<close>

fun emission_probs_loop ::
  "(state, (token, nat) dict) dict \<Rightarrow> rat \<Rightarrow> (state, (token, rat) dict) dict \<Rightarrow>
   error + (state, (token, rat) dict) dict" where
  "emission_probs_loop [] smooth_k probs = Inr probs"
| "emission_probs_loop ((state, emission_counts) # rest) smooth_k probs =
     (let state_cnt = sum_list (map snd emission_counts) in
      case emission_row emission_counts (of_nat state_cnt) smooth_k of
        Inl e \<Rightarrow> Inl e
      | Inr row \<Rightarrow>
          (case calculate_emission_mle smooth_k (of_nat state_cnt) smooth_k of
             Inl e \<Rightarrow> Inl e
           | Inr unk \<Rightarrow>
               emission_probs_loop rest smooth_k
                 (AList.update state (AList.update UNKNOWN_TOKEN unk row) probs)))"

definition deepcopy_cnts :: "('a, ('b, nat) dict) dict \<Rightarrow> ('a, ('b, rat) dict) dict" where
  "deepcopy_cnts cnts = map (\<lambda>(s, row). (s, map (\<lambda>(w, c). (w, of_nat c)) row)) cnts"

text \<open>
  \<^verbatim>\<open>estimate_emission\<close> returns the table and leaves the vocabulary in
  \<^verbatim>\<open>self.training_words\<close>: the result is the table with the updated object.
\<close>

definition estimate_emission ::
  "HMM \<Rightarrow> sequence list \<Rightarrow> rat \<Rightarrow> error + ((state, (token, rat) dict) dict \<times> HMM)" where
  "estimate_emission h observations smooth_k =
     (let state_emission_cnts = fold (\<lambda>state d. AList.update state [] d) (states h) [] in
      case emission_count_all h observations (training_words h, state_emission_cnts) of
        Inl e \<Rightarrow> Inl e
      | Inr (tw, cnts) \<Rightarrow>
          (case emission_probs_loop cnts smooth_k (deepcopy_cnts cnts) of
             Inl e \<Rightarrow> Inl e
           | Inr probs \<Rightarrow> Inr (probs, h\<lparr>training_words := tw\<rparr>)))"

definition get_emission_probability :: "HMM \<Rightarrow> state \<Rightarrow> token \<Rightarrow> error + rat" where
  "get_emission_probability h state word =
     (if map_of (training_words h) word = None then
        (case map_of (emission_probs h) state of
           None \<Rightarrow> Inl (KeyError state)
         | Some row \<Rightarrow>
             (case map_of row UNKNOWN_TOKEN of
                None \<Rightarrow> Inl (KeyError UNKNOWN_TOKEN)
              | Some p \<Rightarrow> Inr p))
      else
        (case map_of (emission_probs h) state of
           None \<Rightarrow> Inl (KeyError state)
         | Some row \<Rightarrow> Inr (dict_get0 row word)))"

subsection \<open>Transition estimation\<close>

text \<open>
  \<^verbatim>\<open>_calculate_transition_mle\<close>. It is called from the comprehension over the items of
  one state's counts only, but the division is guarded as Python's is.
\<close>

definition calculate_transition_mle :: "rat \<Rightarrow> rat \<Rightarrow> error + rat" where
  "calculate_transition_mle next_state_cnt state_cnt =
     (if state_cnt = 0 then Inl ZeroDivisionError else Inr (next_state_cnt / state_cnt))"

text \<open>
  The loop over \<^verbatim>\<open>enumerate(ws_deque)\<close>: position 0 is skipped, every other position
  counts the pair of the previous state and its own.
\<close>

fun transition_count_seq ::
  "sequence \<Rightarrow> (nat \<times> (token \<times> state)) list \<Rightarrow> (state, (state, nat) dict) dict \<Rightarrow>
   error + (state, (state, nat) dict) dict" where
  "transition_count_seq ws_deque [] cnts = Inr cnts"
| "transition_count_seq ws_deque ((i, ws_pair) # rest) cnts =
     (if i = 0 then transition_count_seq ws_deque rest cnts
      else
        (let curr_state = snd ws_pair in
         case py_get ws_deque (i - 1) of Inl e \<Rightarrow> Inl e | Inr prev_pair \<Rightarrow>
         (let prev_state = snd prev_pair in
          case map_of cnts prev_state of
            None \<Rightarrow> Inl (KeyError prev_state)
          | Some row \<Rightarrow>
              transition_count_seq ws_deque rest
                (AList.update prev_state (dict_incr row curr_state) cnts))))"

fun transition_count_all ::
  "HMM \<Rightarrow> sequence list \<Rightarrow> (state, (state, nat) dict) dict \<Rightarrow>
   error + (state, (state, nat) dict) dict" where
  "transition_count_all h [] cnts = Inr cnts"
| "transition_count_all h (ws_deque # rest) cnts =
     (case check_end_states h ws_deque of Inl e \<Rightarrow> Inl e | Inr _ \<Rightarrow>
      case transition_count_seq ws_deque (List.enumerate 0 ws_deque) cnts of
        Inl e \<Rightarrow> Inl e
      | Inr cnts' \<Rightarrow> transition_count_all h rest cnts')"

fun transition_row :: "(state, nat) dict \<Rightarrow> rat \<Rightarrow> error + (state, rat) dict" where
  "transition_row [] state_cnt = Inr []"
| "transition_row ((next_state, next_state_cnt) # rest) state_cnt =
     (case calculate_transition_mle (of_nat next_state_cnt) state_cnt of
        Inl e \<Rightarrow> Inl e
      | Inr p \<Rightarrow>
          (case transition_row rest state_cnt of
             Inl e \<Rightarrow> Inl e
           | Inr row \<Rightarrow> Inr ((next_state, p) # row)))"

fun transition_probs_loop ::
  "(state, (state, nat) dict) dict \<Rightarrow> (state, (state, rat) dict) dict \<Rightarrow>
   error + (state, (state, rat) dict) dict" where
  "transition_probs_loop [] probs = Inr probs"
| "transition_probs_loop ((curr_state, transition_counts) # rest) probs =
     (let state_cnt = sum_list (map snd transition_counts) in
      case transition_row transition_counts (of_nat state_cnt) of
        Inl e \<Rightarrow> Inl e
      | Inr row \<Rightarrow> transition_probs_loop rest (AList.update curr_state row probs))"

definition estimate_transition ::
  "HMM \<Rightarrow> sequence list \<Rightarrow> error + ((state, (state, rat) dict) dict \<times> HMM)" where
  "estimate_transition h observations =
     (case py_get (end_states h) 0 of Inl e \<Rightarrow> Inl e | Inr start \<Rightarrow>
      (let state_transition_cnts =
             fold (\<lambda>state d. AList.update state [] d) ([start] @ states h) [] in
       case transition_count_all h observations state_transition_cnts of
         Inl e \<Rightarrow> Inl e
       | Inr cnts \<Rightarrow>
           (case transition_probs_loop cnts (deepcopy_cnts cnts) of
              Inl e \<Rightarrow> Inl e
            | Inr probs \<Rightarrow> Inr (probs, h\<lparr>transition_cnts := cnts\<rparr>))))"

definition get_transition_probability :: "HMM \<Rightarrow> state \<Rightarrow> state \<Rightarrow> error + rat" where
  "get_transition_probability h state1 state2 =
     (case map_of (transition_probs h) state1 of
        None \<Rightarrow> Inl (KeyError state1)
      | Some row \<Rightarrow> Inr (dict_get0 row state2))"

subsection \<open>Training\<close>

text \<open>
  \<^verbatim>\<open>train\<close> reads the observations from a file and estimates both tables with the
  default smoothing constant 1. Reading the file is outside of the model: \<open>train\<close>
  takes the observations.
\<close>

definition train :: "HMM \<Rightarrow> sequence list \<Rightarrow> error + HMM" where
  "train h observations =
     (case estimate_emission h observations 1 of Inl e \<Rightarrow> Inl e | Inr (eprobs, h1) \<Rightarrow>
      (let h2 = h1\<lparr>emission_probs := eprobs\<rparr> in
       case estimate_transition h2 observations of Inl e \<Rightarrow> Inl e | Inr (tprobs, h3) \<Rightarrow>
         Inr (h3\<lparr>transition_probs := tprobs\<rparr>)))"

subsection \<open>Naive decoding\<close>

definition argmax_emission :: "HMM \<Rightarrow> token \<Rightarrow> error + state" where
  "argmax_emission h word =
     (if emission_probs h = [] then Inl EmissionProbsEmpty
      else
        (let word_emission_probs =
               map (\<lambda>(state, word_probs). (state, dict_get0 word_probs word)) (emission_probs h) in
         case max_itemgetter1 word_emission_probs of
           Inl e \<Rightarrow> Inl e
         | Inr best \<Rightarrow> Inr (fst best)))"

text \<open>The loop of \<^verbatim>\<open>naive_label_sequence\<close>; \<open>prediction\<close> is the deque built so far.\<close>

fun naive_label_loop :: "HMM \<Rightarrow> sequence \<Rightarrow> sequence \<Rightarrow> error + sequence" where
  "naive_label_loop h [] prediction = Inr prediction"
| "naive_label_loop h ((word, state) # rest) prediction =
     (if state \<in> set (end_states h) then naive_label_loop h rest prediction
      else
        (case argmax_emission h word of
           Inl e \<Rightarrow> Inl e
         | Inr best \<Rightarrow> naive_label_loop h rest (prediction @ [(word, best)])))"

definition naive_label_sequence :: "HMM \<Rightarrow> sequence \<Rightarrow> error + sequence" where
  "naive_label_sequence h sequence =
     (if emission_probs h = [] then Inl EmissionProbsEmpty
      else
        (case py_get (end_states h) 0 of Inl e \<Rightarrow> Inl e | Inr start \<Rightarrow>
         case naive_label_loop h sequence [([], start)] of Inl e \<Rightarrow> Inl e | Inr prediction \<Rightarrow>
         case py_get (end_states h) 1 of Inl e \<Rightarrow> Inl e | Inr stop \<Rightarrow>
           Inr (prediction @ [([], stop)])))"

subsection \<open>Viterbi decoding\<close>

definition process_unknown_word :: "HMM \<Rightarrow> token \<Rightarrow> token" where
  "process_unknown_word h word =
     (if map_of (training_words h) word \<noteq> None then word else UNKNOWN_TOKEN)"

text \<open>\<^verbatim>\<open>viterbi_graph[iteration][curr_state] = node\<close>.\<close>

definition graph_set ::
  "viterbi_graph \<Rightarrow> int \<Rightarrow> state \<Rightarrow> state \<times> rat \<Rightarrow> error + viterbi_graph" where
  "graph_set viterbi_graph iteration curr_state node =
     (case map_of viterbi_graph iteration of
        None \<Rightarrow> Inl (KeyErrorInt iteration)
      | Some row \<Rightarrow> Inr (AList.update iteration (AList.update curr_state node row) viterbi_graph))"

text \<open>\<^verbatim>\<open>viterbi_graph[iteration][state]\<close>.\<close>

definition graph_get :: "viterbi_graph \<Rightarrow> int \<Rightarrow> state \<Rightarrow> error + (state \<times> rat)" where
  "graph_get viterbi_graph iteration state =
     (case map_of viterbi_graph iteration of
        None \<Rightarrow> Inl (KeyErrorInt iteration)
      | Some row \<Rightarrow>
          (case map_of row state of None \<Rightarrow> Inl (KeyError state) | Some node \<Rightarrow> Inr node))"

text \<open>
  The forward recursion of \<^verbatim>\<open>_dp_helper\<close>: the loop over the previous states that
  collects \<^verbatim>\<open>temp_nodes\<close>.
\<close>

fun dp_forward ::
  "HMM \<Rightarrow> int \<Rightarrow> state \<Rightarrow> sequence \<Rightarrow> viterbi_graph \<Rightarrow> rat \<Rightarrow> token \<Rightarrow> state list \<Rightarrow>
   (state \<times> rat) list \<Rightarrow> error + (state \<times> rat) list" where
  "dp_forward h iteration curr_state sequence viterbi_graph scaling_constant word []
     temp_nodes = Inr temp_nodes"
| "dp_forward h iteration curr_state sequence viterbi_graph scaling_constant word
     (prev_state # rest) temp_nodes =
     (case graph_get viterbi_graph (iteration - 1) prev_state of
        Inl e \<Rightarrow> Inl e
      | Inr prev_node \<Rightarrow>
     (let prev_optimal_prob = snd prev_node in
      case get_transition_probability h prev_state curr_state of
        Inl e \<Rightarrow> Inl e
      | Inr alpha \<Rightarrow>
     (case (if iteration = int (length sequence) - 1 then Inr 1
            else get_emission_probability h curr_state word) of
        Inl e \<Rightarrow> Inl e
      | Inr beta \<Rightarrow>
     (let prod = prev_optimal_prob * alpha * beta * scaling_constant in
      dp_forward h iteration curr_state sequence viterbi_graph scaling_constant word rest
        (temp_nodes @ [(prev_state, prod)])))))"

definition dp_helper ::
  "HMM \<Rightarrow> int \<Rightarrow> state \<Rightarrow> sequence \<Rightarrow> viterbi_graph \<Rightarrow> rat \<Rightarrow> error + viterbi_graph" where
  "dp_helper h iteration curr_state sequence viterbi_graph scaling_constant =
     (if iteration < 1 \<or> iteration \<ge> int (length sequence) then Inl (InvalidIteration iteration)
      else
     (case py_get (end_states h) 1 of Inl e \<Rightarrow> Inl e | Inr stop \<Rightarrow>
      if curr_state \<notin> set (states h @ [stop]) then Inl (InvalidState curr_state)
      else
     (let word = fst (sequence ! nat iteration);
          word = process_unknown_word h word in
      if iteration = 1 then
        (case py_get (end_states h) 0 of Inl e \<Rightarrow> Inl e | Inr start \<Rightarrow>
         case get_transition_probability h start curr_state of Inl e \<Rightarrow> Inl e | Inr alpha \<Rightarrow>
         case get_emission_probability h curr_state word of Inl e \<Rightarrow> Inl e | Inr beta \<Rightarrow>
           graph_set viterbi_graph iteration curr_state
             (start, alpha * beta * scaling_constant))
      else
        (case dp_forward h iteration curr_state sequence viterbi_graph scaling_constant word
                (states h) [] of
           Inl e \<Rightarrow> Inl e
         | Inr temp_nodes \<Rightarrow>
             (case max_itemgetter1 temp_nodes of
                Inl e \<Rightarrow> Inl e
              | Inr best \<Rightarrow> graph_set viterbi_graph iteration curr_state best)))))"

text \<open>The inner loop of \<^verbatim>\<open>viterbi\<close> over the interior states at one iteration.\<close>

fun viterbi_states ::
  "HMM \<Rightarrow> int \<Rightarrow> sequence \<Rightarrow> rat \<Rightarrow> state list \<Rightarrow> viterbi_graph \<Rightarrow> error + viterbi_graph" where
  "viterbi_states h iteration sequence scaling_constant [] viterbi_graph = Inr viterbi_graph"
| "viterbi_states h iteration sequence scaling_constant (state # rest) viterbi_graph =
     (case dp_helper h iteration state sequence viterbi_graph scaling_constant of
        Inl e \<Rightarrow> Inl e
      | Inr g \<Rightarrow> viterbi_states h iteration sequence scaling_constant rest g)"

text \<open>The outer loop of \<^verbatim>\<open>viterbi\<close> over \<^verbatim>\<open>range(1, len(sequence))\<close>.\<close>

fun viterbi_loop ::
  "HMM \<Rightarrow> sequence \<Rightarrow> rat \<Rightarrow> int list \<Rightarrow> viterbi_graph \<Rightarrow> error + viterbi_graph" where
  "viterbi_loop h sequence scaling_constant [] viterbi_graph = Inr viterbi_graph"
| "viterbi_loop h sequence scaling_constant (iteration # rest) viterbi_graph =
     (if iteration = int (length sequence) - 1 then
        (case py_get (end_states h) 1 of Inl e \<Rightarrow> Inl e | Inr stop \<Rightarrow>
         case dp_helper h iteration stop sequence viterbi_graph scaling_constant of
           Inl e \<Rightarrow> Inl e
         | Inr g \<Rightarrow> viterbi_loop h sequence scaling_constant rest g)
      else
        (case viterbi_states h iteration sequence scaling_constant (states h) viterbi_graph of
           Inl e \<Rightarrow> Inl e
         | Inr g \<Rightarrow> viterbi_loop h sequence scaling_constant rest g))"

definition viterbi :: "HMM \<Rightarrow> sequence \<Rightarrow> rat \<Rightarrow> error + viterbi_graph" where
  "viterbi h sequence scaling_constant =
     (case check_end_states h sequence of Inl e \<Rightarrow> Inl e | Inr _ \<Rightarrow>
      (let iterations = map int [1..<length sequence];
           viterbi_graph = map (\<lambda>i. (i, [])) iterations in
       viterbi_loop h sequence scaling_constant iterations viterbi_graph))"

text \<open>
  The backtrace of \<^verbatim>\<open>viterbi_predict\<close>: the loop over \<^verbatim>\<open>range(len(sequence) - 2, -1, -1)\<close>
  that puts the optimal predecessor of the leftmost label in front of the deque.
\<close>

fun backtrace :: "sequence \<Rightarrow> viterbi_graph \<Rightarrow> nat list \<Rightarrow> sequence \<Rightarrow> error + sequence" where
  "backtrace sequence viterbi_graph [] labelled_sequence = Inr labelled_sequence"
| "backtrace sequence viterbi_graph (i # rest) labelled_sequence =
     (case py_get sequence i of Inl e \<Rightarrow> Inl e | Inr pair \<Rightarrow>
      case py_get labelled_sequence 0 of Inl e \<Rightarrow> Inl e | Inr front \<Rightarrow>
      case graph_get viterbi_graph (int i + 1) (snd front) of Inl e \<Rightarrow> Inl e | Inr optimal_node \<Rightarrow>
        backtrace sequence viterbi_graph rest ((fst pair, fst optimal_node) # labelled_sequence))"

text \<open>
  The body of the loop of \<^verbatim>\<open>viterbi_predict\<close> for one sequence. The source calls
  \<^verbatim>\<open>viterbi\<close> with its default scaling constant; here the constant is an argument.
\<close>

definition viterbi_label :: "HMM \<Rightarrow> sequence \<Rightarrow> rat \<Rightarrow> error + sequence" where
  "viterbi_label h sequence scaling_constant =
     (case viterbi h sequence scaling_constant of Inl e \<Rightarrow> Inl e | Inr viterbi_graph \<Rightarrow>
      case py_get (end_states h) 1 of Inl e \<Rightarrow> Inl e | Inr stop \<Rightarrow>
        backtrace sequence viterbi_graph (rev [0..<length sequence - 1]) [([], stop)])"

fun viterbi_predict :: "HMM \<Rightarrow> sequence list \<Rightarrow> error + sequence list" where
  "viterbi_predict h [] = Inr []"
| "viterbi_predict h (sequence # rest) =
     (case viterbi_label h sequence 100 of Inl e \<Rightarrow> Inl e | Inr labelled_sequence \<Rightarrow>
      case viterbi_predict h rest of Inl e \<Rightarrow> Inl e | Inr predictions \<Rightarrow>
        Inr (labelled_sequence # predictions))"

fun naive_predict :: "HMM \<Rightarrow> sequence list \<Rightarrow> error + sequence list" where
  "naive_predict h [] = Inr []"
| "naive_predict h (sequence # rest) =
     (case naive_label_sequence h sequence of Inl e \<Rightarrow> Inl e | Inr labelled_sequence \<Rightarrow>
      case naive_predict h rest of Inl e \<Rightarrow> Inl e | Inr predictions \<Rightarrow>
        Inr (labelled_sequence # predictions))"

section \<open>The same program with Python's numbers\<close>

text \<open>
  Above, a probability is a rational number. In the source it is a \<^verbatim>\<open>float\<close>, an IEEE 754
  double, and every division and multiplication rounds. This section embeds the
  estimators and the Viterbi decoder once more, with the numbers of the source: a value
  is a Python \<^verbatim>\<open>int\<close> (a count, the default 0 of \<^verbatim>\<open>dict.get\<close>, the 1 that stands for the
  emission of the stop state) or a \<^verbatim>\<open>float\<close>. Functions that do no arithmetic on
  probabilities are taken from above.
\<close>

subsection \<open>IEEE 754 doubles\<close>

text \<open>
  A double is a rational number of the form \<open>m * 2 ^ e\<close> with \<open>\<bar>m\<bar> < 2 ^ 53\<close> and
  \<open>- 1074 \<le> e\<close>, below \<open>2 ^ 1024\<close> in absolute value, or an infinity, or not a
  number. The two zeros of the format are one value here: the program compares,
  multiplies and divides, Python raises on a division by either zero, and none of these
  tells them apart.
\<close>

datatype double = Finite rat | PosInf | NegInf | NaN


text \<open>The number of binary digits of a positive integer.\<close>

function bit_length :: "int \<Rightarrow> int" where
  "bit_length n = (if n \<le> 0 then 0 else 1 + bit_length (n div 2))"
  by pat_completeness auto
termination
  by (relation "measure nat") auto

definition pow2 :: "int \<Rightarrow> rat" where
  "pow2 e = (if 0 \<le> e then 2 ^ nat e else 1 / 2 ^ nat (- e))"

text \<open>
  For a positive \<open>x\<close>, the exponent \<open>e\<close> with \<open>2 ^ e \<le> x < 2 ^ (e + 1)\<close>: the
  difference \<open>d\<close> of the bit lengths of numerator and denominator, or \<open>d - 1\<close>.
\<close>

definition ilog2 :: "rat \<Rightarrow> int" where
  "ilog2 x =
     (let (p, q) = quotient_of x;
          d = bit_length p - bit_length q
      in if pow2 d \<le> x then d else d - 1)"

definition round_half_even :: "rat \<Rightarrow> int" where
  "round_half_even x =
     (let f = \<lfloor>x\<rfloor>; d = x - of_int f
      in if d < 1 / 2 then f else if 1 / 2 < d then f + 1 else if even f then f else f + 1)"

text \<open>
  Rounding to the nearest double, ties to the even significand. The unit in the last
  place of \<open>x\<close> is \<open>2 ^ (e - 52)\<close> for its exponent \<open>e\<close>, and \<open>2 ^ (- 1074)\<close> in the
  subnormal range below \<open>2 ^ (- 1022)\<close>; a result of \<open>2 ^ 1024\<close> or more (exponent 1024)
  is an infinity.
\<close>

definition round_double :: "rat \<Rightarrow> double" where
  "round_double x =
     (if x = 0 then Finite 0
      else
        (let e = max (ilog2 \<bar>x\<bar>) (- 1022);
             ulp = pow2 (e - 52);
             r = of_int (round_half_even (x / ulp)) * ulp
         in if 1024 \<le> ilog2 \<bar>r\<bar> then (if 0 < x then PosInf else NegInf) else Finite r))"




subsection \<open>Python arithmetic\<close>






subsection \<open>The model\<close>








subsection \<open>Estimation\<close>













subsection \<open>Viterbi decoding\<close>










section \<open>Notions used to state the properties\<close>

subsection \<open>Kinds of errors\<close>

text \<open>
  The two exceptions that \<^verbatim>\<open>_dp_helper\<close> raises for an argument out of range, and the two
  that \<^verbatim>\<open>_check_end_states\<close> raises for a sequence without its sentinels.
\<close>

fun is_invalid_argument :: "error \<Rightarrow> bool" where
  "is_invalid_argument (InvalidIteration i) = True"
| "is_invalid_argument (InvalidState s) = True"
| "is_invalid_argument e = False"

definition signals_invalid_argument :: "error + 'a \<Rightarrow> bool" where
  "signals_invalid_argument r = (case r of Inl e \<Rightarrow> is_invalid_argument e | Inr x \<Rightarrow> False)"

fun is_boundary_error :: "error \<Rightarrow> bool" where
  "is_boundary_error (InvalidStartingState s) = True"
| "is_boundary_error (InvalidStoppingState s) = True"
| "is_boundary_error e = False"

text \<open>The boundary error of a sequence: the starting state is looked at first.\<close>

definition boundary_error :: "HMM \<Rightarrow> sequence \<Rightarrow> error" where
  "boundary_error h ws =
     (if snd (hd ws) \<noteq> end_states h ! 0 then InvalidStartingState (snd (hd ws))
      else InvalidStoppingState (snd (last ws)))"

subsection \<open>What a corpus contains\<close>

text \<open>Counting a list of keys into a dictionary, one \<open>dict_incr\<close> for each.\<close>

definition count_into :: "('k, nat) dict \<Rightarrow> 'k list \<Rightarrow> ('k, nat) dict" where
  "count_into d ks = fold (\<lambda>k d. dict_incr d k) ks d"

text \<open>
  The pairs of a sequence that emit a token (those whose state is not an end state), and
  the tokens emitted under a state \<open>s\<close>, in the order of the sequence. For a corpus
  \<open>obs\<close> both are taken of \<open>concat obs\<close>. The number of times a token \<open>w\<close> is observed
  under \<open>s\<close> is \<open>count_list (emissions_of h (concat obs) s) w\<close>, the total emission
  count of \<open>s\<close> is the length of that list.
\<close>

definition emitted :: "HMM \<Rightarrow> sequence \<Rightarrow> sequence" where
  "emitted h ws = filter (\<lambda>(word, state). state \<notin> set (end_states h)) ws"

definition emissions_of :: "HMM \<Rightarrow> sequence \<Rightarrow> state \<Rightarrow> token list" where
  "emissions_of h ws s = map fst (filter (\<lambda>(word, state). state = s) (emitted h ws))"

text \<open>
  The pairs of adjacent states of a sequence, the successors of a state \<open>s\<close> in one
  sequence, and in a corpus (no pair crosses from one sequence into the next).
\<close>

definition transitions :: "sequence \<Rightarrow> (state \<times> state) list" where
  "transitions ws = zip (map snd ws) (tl (map snd ws))"

definition successors_of :: "sequence \<Rightarrow> state \<Rightarrow> state list" where
  "successors_of ws s = map snd (filter (\<lambda>(prev_state, curr_state). prev_state = s) (transitions ws))"

definition corpus_successors :: "sequence list \<Rightarrow> state \<Rightarrow> state list" where
  "corpus_successors obs s = concat (map (\<lambda>ws. successors_of ws s) obs)"

text \<open>The row of estimates that belongs to a row of counts, with and without smoothing.\<close>

definition smoothed_row :: "(token, nat) dict \<Rightarrow> rat \<Rightarrow> (token, rat) dict" where
  "smoothed_row counts k =
     (let total = of_nat (sum_list (map snd counts)) in
      AList.update UNKNOWN_TOKEN (k / (total + k))
        (map (\<lambda>(word, c). (word, of_nat c / (total + k))) counts))"

definition normalized_row :: "(state, nat) dict \<Rightarrow> (state, rat) dict" where
  "normalized_row counts =
     (let total = of_nat (sum_list (map snd counts)) in
      map (\<lambda>(next_state, c). (next_state, of_nat c / total)) counts)"

text \<open>
  The raw probabilities of a token, state by state, in the order of the emission table:
  what \<^verbatim>\<open>word_probs.get(word, 0)\<close> gives, with no detour over the unknown token. The
  first state of the table whose raw probability is the largest of all states' is the
  label that the naive decoder is to give.
\<close>

definition raw_emissions :: "HMM \<Rightarrow> token \<Rightarrow> (state \<times> rat) list" where
  "raw_emissions h word =
     map (\<lambda>(state, word_probs). (state, dict_get0 word_probs word)) (emission_probs h)"

definition first_argmax :: "HMM \<Rightarrow> token \<Rightarrow> state option" where
  "first_argmax h word =
     map_option fst
       (find (\<lambda>(state, p). p = Max (set (map snd (raw_emissions h word)))) (raw_emissions h word))"





subsection \<open>Example data\<close>

text \<open>
  Two interior states \<open>A\<close> and \<open>B\<close>, a corpus of two sequences, and the model that training
  on it gives. The second corpus contains the text of the unknown token as a word; in
  the third, \<open>A\<close> emits three tokens and \<open>B\<close> two.
\<close>

definition example_states :: "state list" where
  "example_states = [''START'', ''STOP'', ''A'', ''B'']"

definition example_corpus :: "sequence list" where
  "example_corpus =
     [[([], ''START''), (''x'', ''A''), (''y'', ''B''), ([], ''STOP'')],
      [([], ''START''), (''x'', ''A''), (''x'', ''B''), ([], ''STOP'')]]"

definition example_model :: HMM where
  "example_model =
     \<lparr> end_states = [''START'', ''STOP''], states = [''A'', ''B''],
       emission_probs =
         [(''A'', [(''x'', 2 / 3), (''#UNK#'', 1 / 3)]),
          (''B'', [(''y'', 1 / 3), (''x'', 1 / 3), (''#UNK#'', 1 / 3)])],
       transition_probs =
         [(''START'', [(''A'', 1)]), (''A'', [(''B'', 1)]), (''B'', [(''STOP'', 1)])],
       training_words = [(''x'', 3), (''y'', 1)],
       transition_cnts =
         [(''START'', [(''A'', 2)]), (''A'', [(''B'', 2)]), (''B'', [(''STOP'', 2)])] \<rparr>"

definition unk_corpus :: "sequence list" where
  "unk_corpus =
     [[([], ''START''), (''#UNK#'', ''A''), (''#UNK#'', ''A''), (''z'', ''B''), ([], ''STOP'')]]"

definition skew_corpus :: "sequence list" where
  "skew_corpus =
     [[([], ''START''), (''x'', ''A''), (''y'', ''B''), ([], ''STOP'')],
      [([], ''START''), (''x'', ''A''), (''x'', ''B''), ([], ''STOP'')],
      [([], ''START''), (''x'', ''A''), ([], ''STOP'')]]"





definition example_sequence :: sequence where
  "example_sequence = [([], ''START''), (''x'', []), (''x'', []), ([], ''STOP'')]"

definition example_graph :: viterbi_graph where
  "example_graph =
     [(1, [(''A'', (''START'', 200 / 3)), (''B'', (''START'', 0))]),
      (2, [(''A'', (''A'', 0)), (''B'', (''A'', 20000 / 9))]),
      (3, [])]"

section \<open>Doubles\<close>

text \<open>The doubles nearest to a third, to a tenth and to minus five thirds.\<close>

lemma round_double_examples:
  "round_double (1 / 3) = Finite (6004799503160661 / 18014398509481984)"
  "round_double (1 / 10) = Finite (3602879701896397 / 36028797018963968)"
  "round_double (- 5 / 3) = Finite (- 7505999378950827 / 4503599627370496)"
  by code_simp+


section \<open>Dictionaries and counting\<close>

lemma map_fst_update_present:
  "k \<in> fst ` set d \<Longrightarrow> map fst (AList.update k v d) = map fst d"
  by (simp add: update_keys)

lemma map_of_present: "map_of d k = Some v \<Longrightarrow> k \<in> fst ` set d"
  by (metis domI dom_map_of_conv_image_fst)

lemma dict_get0_update:
  "dict_get0 (AList.update k v d) k' = (if k' = k then v else dict_get0 d k')"
  by (simp add: dict_get0_def update_conv')

lemma sum_list_update:
  fixes d :: "('k, nat) dict"
  shows "sum_list (map snd (AList.update k (dict_get0 d k + n) d)) = sum_list (map snd d) + n"
proof (induction d)
  case Nil
  show ?case by (simp add: dict_get0_def)
next
  case (Cons p d)
  show ?case
  proof (cases "fst p = k")
    case True
    then show ?thesis by (cases p) (simp add: dict_get0_def)
  next
    case False
    then have "dict_get0 (p # d) k = dict_get0 d k"
      by (cases p) (simp add: dict_get0_def)
    with False Cons show ?thesis by simp
  qed
qed

lemma map_of_map_values:
  "map_of (map (\<lambda>(a, b). (a, f b)) d) a = map_option f (map_of d a)"
  by (induction d) auto

lemma dict_incr_get0: "dict_get0 (dict_incr d k) k' = dict_get0 d k' + (if k' = k then 1 else 0)"
  by (simp add: dict_incr_def dict_get0_update)

lemma dict_incr_sum: "sum_list (map snd (dict_incr d k)) = sum_list (map snd d) + 1"
  unfolding dict_incr_def by (rule sum_list_update)

lemma dict_incr_keys: "fst ` set (dict_incr d k) = insert k (fst ` set d)"
  by (simp add: dict_incr_def dom_update)

lemma dict_incr_distinct: "distinct (map fst d) \<Longrightarrow> distinct (map fst (dict_incr d k))"
  by (simp add: dict_incr_def distinct_update)

lemma count_into_Nil: "count_into d [] = d"
  by (simp add: count_into_def)

lemma count_into_Cons: "count_into d (k # ks) = count_into (dict_incr d k) ks"
  by (simp add: count_into_def)

lemma count_into_append: "count_into d (ks @ ks') = count_into (count_into d ks) ks'"
  by (simp add: count_into_def)

lemma count_into_get0: "dict_get0 (count_into d ks) k = dict_get0 d k + count_list ks k"
  by (induction ks arbitrary: d) (simp_all add: count_into_Nil count_into_Cons dict_incr_get0)

lemma count_into_sum: "sum_list (map snd (count_into d ks)) = sum_list (map snd d) + length ks"
  by (induction ks arbitrary: d) (simp_all add: count_into_Nil count_into_Cons dict_incr_sum)

lemma count_into_keys: "fst ` set (count_into d ks) = fst ` set d \<union> set ks"
  by (induction ks arbitrary: d) (auto simp add: count_into_Nil count_into_Cons dict_incr_keys)

lemma count_into_distinct: "distinct (map fst d) \<Longrightarrow> distinct (map fst (count_into d ks))"
  by (induction ks arbitrary: d) (simp_all add: count_into_Nil count_into_Cons dict_incr_distinct)

lemma count_into_map_of:
  "map_of (count_into [] ks) k = (if k \<in> set ks then Some (count_list ks k) else None)"
proof (cases "k \<in> set ks")
  case True
  then have "k \<in> fst ` set (count_into [] ks)" by (simp add: count_into_keys)
  then obtain v where v: "map_of (count_into [] ks) k = Some v"
    by (metis domD dom_map_of_conv_image_fst)
  have "dict_get0 (count_into [] ks) k = count_list ks k"
    by (simp add: count_into_get0) (simp add: dict_get0_def)
  with v have "v = count_list ks k" by (simp add: dict_get0_def)
  with v True show ?thesis by simp
next
  case False
  then have "k \<notin> fst ` set (count_into [] ks)" by (simp add: count_into_keys)
  then have "map_of (count_into [] ks) k = None" by (simp add: map_of_eq_None_iff)
  with False show ?thesis by simp
qed

text \<open>The tables that an estimator starts from: one empty row for each state.\<close>

lemma empty_rows_map_of:
  "map_of (fold (\<lambda>state d. AList.update state [] d) ks d) k =
     (if k \<in> set ks then Some [] else map_of d k)"
  by (induction ks arbitrary: d) (auto simp add: update_conv')

lemma empty_rows_distinct:
  "distinct (map fst d) \<Longrightarrow> distinct (map fst (fold (\<lambda>state d. AList.update state [] d) ks d))"
  by (induction ks arbitrary: d) (simp_all add: distinct_update)

lemma empty_rows_keys:
  "fst ` set (fold (\<lambda>state d. AList.update state [] d) ks d) = set ks \<union> fst ` set d"
  by (induction ks arbitrary: d) (auto simp add: dom_update)

lemma deepcopy_cnts_keys: "map fst (deepcopy_cnts cnts) = map fst cnts"
  by (simp add: deepcopy_cnts_def case_prod_beta)

section \<open>What the emission estimator computes\<close>

lemma emitted_append: "emitted h (a @ b) = emitted h a @ emitted h b"
  by (simp add: emitted_def)

lemma emissions_of_append: "emissions_of h (a @ b) s = emissions_of h a s @ emissions_of h b s"
  by (simp add: emissions_of_def emitted_append)

lemma emission_count_seq_keys:
  "emission_count_seq h ws (tw, cnts) = Inr (tw', cnts') \<Longrightarrow> map fst cnts' = map fst cnts"
proof (induction ws arbitrary: tw cnts)
  case Nil
  then show ?case by simp
next
  case (Cons p ws)
  obtain word state where p: "p = (word, state)" by (cases p)
  show ?case
  proof (cases "state \<in> set (end_states h)")
    case True
    with Cons p show ?thesis by simp
  next
    case False
    with Cons.prems p obtain row where row: "map_of cnts state = Some row"
      and rest: "emission_count_seq h ws
        (dict_incr tw word, AList.update state (dict_incr row word) cnts) = Inr (tw', cnts')"
      by (auto split: if_splits option.splits)
    from Cons.IH[OF rest] row show ?thesis
      by (simp add: map_fst_update_present map_of_present)
  qed
qed

lemma emission_count_seq_rows:
  "emission_count_seq h ws (tw, cnts) = Inr (tw', cnts') \<Longrightarrow>
   tw' = count_into tw (map fst (emitted h ws)) \<and>
   (\<forall>s. map_of cnts' s = map_option (\<lambda>row. count_into row (emissions_of h ws s)) (map_of cnts s))"
proof (induction ws arbitrary: tw cnts)
  case Nil
  then show ?case by (simp add: emitted_def emissions_of_def count_into_Nil option.map_ident)
next
  case (Cons p ws)
  obtain word state where p: "p = (word, state)" by (cases p)
  show ?case
  proof (cases "state \<in> set (end_states h)")
    case True
    with Cons p show ?thesis by (simp add: emitted_def emissions_of_def)
  next
    case False
    with Cons.prems p obtain row where row: "map_of cnts state = Some row"
      and rest: "emission_count_seq h ws
        (dict_incr tw word, AList.update state (dict_incr row word) cnts) = Inr (tw', cnts')"
      by (auto split: if_splits option.splits)
    from Cons.IH[OF rest] row False p show ?thesis
      by (auto simp add: emitted_def emissions_of_def count_into_Cons update_conv')
  qed
qed

lemma emission_count_all_keys:
  "emission_count_all h obs (tw, cnts) = Inr (tw', cnts') \<Longrightarrow> map fst cnts' = map fst cnts"
proof (induction obs arbitrary: tw cnts)
  case Nil
  then show ?case by simp
next
  case (Cons ws obs)
  from Cons.prems obtain tw1 cnts1 where
    one: "emission_count_seq h ws (tw, cnts) = Inr (tw1, cnts1)" and
    rest: "emission_count_all h obs (tw1, cnts1) = Inr (tw', cnts')"
    by (auto split: sum.splits)
  from Cons.IH[OF rest] emission_count_seq_keys[OF one] show ?case by simp
qed

lemma emission_count_all_rows:
  "emission_count_all h obs (tw, cnts) = Inr (tw', cnts') \<Longrightarrow>
   tw' = count_into tw (map fst (emitted h (concat obs))) \<and>
   (\<forall>s. map_of cnts' s =
        map_option (\<lambda>row. count_into row (emissions_of h (concat obs) s)) (map_of cnts s))"
proof (induction obs arbitrary: tw cnts)
  case Nil
  then show ?case by (simp add: emitted_def emissions_of_def count_into_Nil option.map_ident)
next
  case (Cons ws obs)
  from Cons.prems obtain tw1 cnts1 where
    one: "emission_count_seq h ws (tw, cnts) = Inr (tw1, cnts1)" and
    rest: "emission_count_all h obs (tw1, cnts1) = Inr (tw', cnts')"
    by (auto split: sum.splits)
  from Cons.IH[OF rest] emission_count_seq_rows[OF one] show ?case
    by (simp add: emitted_append emissions_of_append count_into_append option.map_comp o_def)
qed

lemma emission_row_eq:
  "emission_row counts sc k =
     (if counts \<noteq> [] \<and> sc + k = 0 then Inl ZeroDivisionError
      else Inr (map (\<lambda>(word, c). (word, of_nat c / (sc + k))) counts))"
  by (induction counts) (auto simp add: calculate_emission_mle_def)

lemma emission_probs_loop_step:
  "emission_probs_loop ((s, counts) # rest) k probs =
     (if of_nat (sum_list (map snd counts)) + k = 0 then Inl ZeroDivisionError
      else emission_probs_loop rest k (AList.update s (smoothed_row counts k) probs))"
  by (simp add: emission_row_eq calculate_emission_mle_def smoothed_row_def Let_def)

lemma emission_probs_loop_nonzero:
  "emission_probs_loop items k probs = Inr probs' \<Longrightarrow> (s, counts) \<in> set items \<Longrightarrow>
   of_nat (sum_list (map snd counts)) + k \<noteq> 0"
proof (induction items arbitrary: probs)
  case Nil
  then show ?case by simp
next
  case (Cons p items)
  obtain s1 c1 where p: "p = (s1, c1)" by (cases p)
  from Cons.prems(1) p have nz: "of_nat (sum_list (map snd c1)) + k \<noteq> 0"
    and rest: "emission_probs_loop items k (AList.update s1 (smoothed_row c1 k) probs) = Inr probs'"
    by (auto simp add: emission_probs_loop_step simp del: emission_probs_loop.simps split: if_splits)
  from Cons.prems(2) p consider "s = s1 \<and> counts = c1" | "(s, counts) \<in> set items" by auto
  then show ?case
  proof cases
    case 1
    with nz show ?thesis by simp
  next
    case 2
    with Cons.IH[OF rest] show ?thesis by simp
  qed
qed

lemma emission_probs_loop_keys:
  "emission_probs_loop items k probs = Inr probs' \<Longrightarrow> fst ` set items \<subseteq> fst ` set probs \<Longrightarrow>
   map fst probs' = map fst probs"
proof (induction items arbitrary: probs)
  case Nil
  then show ?case by simp
next
  case (Cons p items)
  obtain s1 c1 where p: "p = (s1, c1)" by (cases p)
  from Cons.prems(1) p have
    rest: "emission_probs_loop items k (AList.update s1 (smoothed_row c1 k) probs) = Inr probs'"
    by (auto simp add: emission_probs_loop_step simp del: emission_probs_loop.simps split: if_splits)
  from Cons.prems(2) p have in1: "s1 \<in> fst ` set probs" by simp
  then have keys: "map fst (AList.update s1 (smoothed_row c1 k) probs) = map fst probs"
    by (rule map_fst_update_present)
  then have "fst ` set (AList.update s1 (smoothed_row c1 k) probs) = fst ` set probs"
    by (metis list.set_map)
  with Cons.prems(2) have "fst ` set items \<subseteq> fst ` set (AList.update s1 (smoothed_row c1 k) probs)"
    by simp
  from Cons.IH[OF rest this] keys show ?case by simp
qed

lemma emission_probs_loop_map_of:
  "emission_probs_loop items k probs = Inr probs' \<Longrightarrow> distinct (map fst items) \<Longrightarrow>
   map_of probs' s =
     (case map_of items s of None \<Rightarrow> map_of probs s | Some counts \<Rightarrow> Some (smoothed_row counts k))"
proof (induction items arbitrary: probs)
  case Nil
  then show ?case by simp
next
  case (Cons p items)
  obtain s1 c1 where p: "p = (s1, c1)" by (cases p)
  from Cons.prems(1) p have
    rest: "emission_probs_loop items k (AList.update s1 (smoothed_row c1 k) probs) = Inr probs'"
    by (auto simp add: emission_probs_loop_step simp del: emission_probs_loop.simps split: if_splits)
  from Cons.prems(2) p have d: "distinct (map fst items)" and notin: "s1 \<notin> fst ` set items"
    by simp_all
  from notin have none: "map_of items s1 = None" by (simp add: map_of_eq_None_iff)
  from Cons.IH[OF rest d] none p show ?case
    by (auto simp add: update_conv' split: option.splits)
qed

text \<open>What \<open>estimate_emission\<close> returns when it returns.\<close>

lemma estimate_emission_result:
  assumes "estimate_emission h obs k = Inr (probs, h')"
  shows "h' = h\<lparr>training_words := count_into (training_words h) (map fst (emitted h (concat obs)))\<rparr>"
    and "fst ` set probs = set (states h)"
    and "s \<in> set (states h) \<Longrightarrow>
         map_of probs s = Some (smoothed_row (count_into [] (emissions_of h (concat obs) s)) k)"
    and "s \<in> set (states h) \<Longrightarrow> of_nat (length (emissions_of h (concat obs) s)) + k \<noteq> 0"
proof -
  let ?init = "fold (\<lambda>state d. AList.update state [] d) (states h) [] ::
    (state, (token, nat) dict) dict"
  from assms obtain tw cnts where
    cnt: "emission_count_all h obs (training_words h, ?init) = Inr (tw, cnts)" and
    loop: "emission_probs_loop cnts k (deepcopy_cnts cnts) = Inr probs" and
    h': "h' = h\<lparr>training_words := tw\<rparr>"
    by (auto simp add: estimate_emission_def Let_def split: sum.splits prod.splits)
  note rows = emission_count_all_rows[OF cnt]
  from rows h' show "h' = h\<lparr>training_words :=
      count_into (training_words h) (map fst (emitted h (concat obs)))\<rparr>" by simp
  have keys: "map fst cnts = map fst ?init" by (rule emission_count_all_keys[OF cnt])
  have dist: "distinct (map fst cnts)" unfolding keys by (rule empty_rows_distinct) simp
  have "fst ` set cnts \<subseteq> fst ` set (deepcopy_cnts cnts)"
    by (metis deepcopy_cnts_keys list.set_map order_refl)
  from emission_probs_loop_keys[OF loop this] have "map fst probs = map fst ?init"
    by (simp add: deepcopy_cnts_keys keys)
  then have "fst ` set probs = fst ` set ?init" by (metis list.set_map)
  then show "fst ` set probs = set (states h)" by (simp add: empty_rows_keys)
  {
    assume s: "s \<in> set (states h)"
    with rows have row: "map_of cnts s = Some (count_into [] (emissions_of h (concat obs) s))"
      by (simp add: empty_rows_map_of)
    with emission_probs_loop_map_of[OF loop dist, of s]
    show "map_of probs s = Some (smoothed_row (count_into [] (emissions_of h (concat obs) s)) k)"
      by simp
    from row have "(s, count_into [] (emissions_of h (concat obs) s)) \<in> set cnts"
      by (rule map_of_SomeD)
    from emission_probs_loop_nonzero[OF loop this]
    show "of_nat (length (emissions_of h (concat obs) s)) + k \<noteq> 0"
      by (simp add: count_into_sum)
  }
qed

lemma smoothed_row_unknown:
  "map_of (smoothed_row counts k) UNKNOWN_TOKEN = Some (k / (of_nat (sum_list (map snd counts)) + k))"
  by (simp add: smoothed_row_def Let_def update_conv')

lemma smoothed_row_token:
  "w \<noteq> UNKNOWN_TOKEN \<Longrightarrow>
   map_of (smoothed_row counts k) w =
     map_option (\<lambda>c. of_nat c / (of_nat (sum_list (map snd counts)) + k)) (map_of counts w)"
  by (simp add: smoothed_row_def Let_def update_conv' map_of_map_values)

lemma smoothed_row_empty: "smoothed_row [] k = [(UNKNOWN_TOKEN, k / (0 + k))]"
  by (simp add: smoothed_row_def)

section \<open>What the transition estimator computes\<close>

lemma transitions_index:
  "transitions ws = map (\<lambda>i. (snd (ws ! (i - 1)), snd (ws ! i))) [1..<length ws]"
proof (rule nth_equalityI)
  show "length (transitions ws) = length (map (\<lambda>i. (snd (ws ! (i - 1)), snd (ws ! i))) [1..<length ws])"
    by (simp add: transitions_def)
next
  fix i assume "i < length (transitions ws)"
  then have i: "i < length ws - 1" by (simp add: transitions_def)
  then show "transitions ws ! i = map (\<lambda>i. (snd (ws ! (i - 1)), snd (ws ! i))) [1..<length ws] ! i"
    by (simp add: transitions_def nth_tl)
qed

lemma successors_of_index:
  "successors_of ws s =
     map (\<lambda>i. snd (ws ! i)) (filter (\<lambda>i. i \<noteq> 0 \<and> snd (ws ! (i - 1)) = s) [0..<length ws])"
proof -
  have "[0..<length ws] = (if ws = [] then [] else 0 # [1..<length ws])"
    by (simp add: upt_rec)
  moreover have "filter (\<lambda>i. i \<noteq> 0 \<and> snd (ws ! (i - 1)) = s) [1..<length ws]
     = filter (\<lambda>i. snd (ws ! (i - 1)) = s) [1..<length ws]"
    by (rule filter_cong) auto
  ultimately show ?thesis
    by (simp add: successors_of_def transitions_index filter_map o_def case_prod_beta)
qed

lemma transition_count_seq_keys:
  "transition_count_seq ws es cnts = Inr cnts' \<Longrightarrow> map fst cnts' = map fst cnts"
proof (induction es arbitrary: cnts)
  case Nil
  then show ?case by simp
next
  case (Cons e es)
  obtain i p where e: "e = (i, p)" by (cases e)
  show ?case
  proof (cases "i = 0")
    case True
    with Cons e show ?thesis by simp
  next
    case False
    with Cons.prems e obtain q row where
      row: "map_of cnts (snd q) = Some row" and
      rest: "transition_count_seq ws es (AList.update (snd q) (dict_incr row (snd p)) cnts) = Inr cnts'"
      by (auto simp add: Let_def split: sum.splits option.splits)
    from Cons.IH[OF rest] row show ?thesis
      by (simp add: map_fst_update_present map_of_present)
  qed
qed

lemma transition_count_seq_rows:
  "transition_count_seq ws es cnts = Inr cnts' \<Longrightarrow>
   \<forall>(i, p) \<in> set es. i < length ws \<and> p = ws ! i \<Longrightarrow>
   map_of cnts' s =
     map_option (\<lambda>row. count_into row
        (map (\<lambda>i. snd (ws ! i)) (filter (\<lambda>i. i \<noteq> 0 \<and> snd (ws ! (i - 1)) = s) (map fst es))))
      (map_of cnts s)"
proof (induction es arbitrary: cnts)
  case Nil
  then show ?case by (simp add: count_into_Nil option.map_ident)
next
  case (Cons e es)
  obtain i p where e: "e = (i, p)" by (cases e)
  from Cons.prems(2) e have i: "i < length ws" and p: "p = ws ! i"
    and es: "\<forall>(i, p) \<in> set es. i < length ws \<and> p = ws ! i" by auto
  show ?case
  proof (cases "i = 0")
    case True
    with Cons.prems(1) e have "transition_count_seq ws es cnts = Inr cnts'" by simp
    from Cons.IH[OF this es] True e show ?thesis by simp
  next
    case False
    with i have prev: "py_get ws (i - 1) = Inr (ws ! (i - 1))" by (simp add: py_get_def)
    with Cons.prems(1) e False obtain row where
      row: "map_of cnts (snd (ws ! (i - 1))) = Some row" and
      rest: "transition_count_seq ws es
               (AList.update (snd (ws ! (i - 1))) (dict_incr row (snd p)) cnts) = Inr cnts'"
      by (auto simp add: Let_def split: option.splits)
    from Cons.IH[OF rest es] row e False p show ?thesis
      by (auto simp add: update_conv' count_into_Cons)
  qed
qed

lemma enumerate_entries: "\<forall>(i, p) \<in> set (List.enumerate 0 ws). i < length ws \<and> p = ws ! i"
  by (auto simp add: in_set_enumerate_eq)

lemma transition_count_seq_successors:
  assumes "transition_count_seq ws (List.enumerate 0 ws) cnts = Inr cnts'"
  shows "map_of cnts' s = map_option (\<lambda>row. count_into row (successors_of ws s)) (map_of cnts s)"
  using transition_count_seq_rows[OF assms enumerate_entries, of s]
  by (simp add: successors_of_index)

lemma transition_count_all_keys:
  "transition_count_all h obs cnts = Inr cnts' \<Longrightarrow> map fst cnts' = map fst cnts"
proof (induction obs arbitrary: cnts)
  case Nil
  then show ?case by simp
next
  case (Cons ws obs)
  from Cons.prems obtain cnts1 where
    one: "transition_count_seq ws (List.enumerate 0 ws) cnts = Inr cnts1" and
    rest: "transition_count_all h obs cnts1 = Inr cnts'"
    by (auto split: sum.splits)
  from Cons.IH[OF rest] transition_count_seq_keys[OF one] show ?case by simp
qed

lemma transition_count_all_rows:
  "transition_count_all h obs cnts = Inr cnts' \<Longrightarrow>
   map_of cnts' s = map_option (\<lambda>row. count_into row (corpus_successors obs s)) (map_of cnts s)"
proof (induction obs arbitrary: cnts)
  case Nil
  then show ?case by (simp add: corpus_successors_def count_into_Nil option.map_ident)
next
  case (Cons ws obs)
  from Cons.prems obtain cnts1 where
    one: "transition_count_seq ws (List.enumerate 0 ws) cnts = Inr cnts1" and
    rest: "transition_count_all h obs cnts1 = Inr cnts'"
    by (auto split: sum.splits)
  from Cons.IH[OF rest] transition_count_seq_successors[OF one, of s] show ?case
    by (simp add: corpus_successors_def count_into_append option.map_comp o_def)
qed

lemma transition_row_eq:
  "transition_row counts sc =
     (if counts \<noteq> [] \<and> sc = 0 then Inl ZeroDivisionError
      else Inr (map (\<lambda>(next_state, c). (next_state, of_nat c / sc)) counts))"
  by (induction counts) (auto simp add: calculate_transition_mle_def)

lemma transition_probs_loop_step:
  "transition_probs_loop ((s, counts) # rest) probs =
     (if counts \<noteq> [] \<and> sum_list (map snd counts) = 0 then Inl ZeroDivisionError
      else transition_probs_loop rest (AList.update s (normalized_row counts) probs))"
  by (simp add: transition_row_eq normalized_row_def Let_def)

lemma transition_probs_loop_keys:
  "transition_probs_loop items probs = Inr probs' \<Longrightarrow> fst ` set items \<subseteq> fst ` set probs \<Longrightarrow>
   map fst probs' = map fst probs"
proof (induction items arbitrary: probs)
  case Nil
  then show ?case by simp
next
  case (Cons p items)
  obtain s1 c1 where p: "p = (s1, c1)" by (cases p)
  from Cons.prems(1) p have
    rest: "transition_probs_loop items (AList.update s1 (normalized_row c1) probs) = Inr probs'"
    by (auto simp add: transition_probs_loop_step simp del: transition_probs_loop.simps split: if_splits)
  from Cons.prems(2) p have in1: "s1 \<in> fst ` set probs" by simp
  then have keys: "map fst (AList.update s1 (normalized_row c1) probs) = map fst probs"
    by (rule map_fst_update_present)
  then have "fst ` set (AList.update s1 (normalized_row c1) probs) = fst ` set probs"
    by (metis list.set_map)
  with Cons.prems(2) have "fst ` set items \<subseteq> fst ` set (AList.update s1 (normalized_row c1) probs)"
    by simp
  from Cons.IH[OF rest this] keys show ?case by simp
qed

lemma transition_probs_loop_map_of:
  "transition_probs_loop items probs = Inr probs' \<Longrightarrow> distinct (map fst items) \<Longrightarrow>
   map_of probs' s =
     (case map_of items s of None \<Rightarrow> map_of probs s | Some counts \<Rightarrow> Some (normalized_row counts))"
proof (induction items arbitrary: probs)
  case Nil
  then show ?case by simp
next
  case (Cons p items)
  obtain s1 c1 where p: "p = (s1, c1)" by (cases p)
  from Cons.prems(1) p have
    rest: "transition_probs_loop items (AList.update s1 (normalized_row c1) probs) = Inr probs'"
    by (auto simp add: transition_probs_loop_step simp del: transition_probs_loop.simps split: if_splits)
  from Cons.prems(2) p have d: "distinct (map fst items)" and notin: "s1 \<notin> fst ` set items"
    by simp_all
  from notin have none: "map_of items s1 = None" by (simp add: map_of_eq_None_iff)
  from Cons.IH[OF rest d] none p show ?case
    by (auto simp add: update_conv' split: option.splits)
qed

lemma estimate_transition_result:
  assumes "estimate_transition h obs = Inr (probs, h')"
  shows "\<exists>cnts. h' = h\<lparr>transition_cnts := cnts\<rparr>"
    and "end_states h \<noteq> []"
    and "fst ` set probs = set (hd (end_states h) # states h)"
    and "s \<in> set (hd (end_states h) # states h) \<Longrightarrow>
         map_of probs s = Some (normalized_row (count_into [] (corpus_successors obs s)))"
proof -
  from assms obtain start where start: "py_get (end_states h) 0 = Inr start"
    by (auto simp add: estimate_transition_def split: sum.splits)
  then have ne: "end_states h \<noteq> []" and hd: "hd (end_states h) = start"
    by (auto simp add: py_get_def hd_conv_nth split: if_splits)
  show "end_states h \<noteq> []" by (rule ne)
  let ?init = "fold (\<lambda>state d. AList.update state [] d) ([start] @ states h) [] ::
    (state, (state, nat) dict) dict"
  from assms start obtain cnts where
    cnt: "transition_count_all h obs ?init = Inr cnts" and
    loop: "transition_probs_loop cnts (deepcopy_cnts cnts) = Inr probs" and
    h': "h' = h\<lparr>transition_cnts := cnts\<rparr>"
    by (auto simp add: estimate_transition_def Let_def split: sum.splits)
  from h' show "\<exists>cnts. h' = h\<lparr>transition_cnts := cnts\<rparr>" by blast
  have keys: "map fst cnts = map fst ?init" by (rule transition_count_all_keys[OF cnt])
  have dist: "distinct (map fst cnts)" unfolding keys by (rule empty_rows_distinct) simp
  have "fst ` set cnts \<subseteq> fst ` set (deepcopy_cnts cnts)"
    by (metis deepcopy_cnts_keys list.set_map order_refl)
  from transition_probs_loop_keys[OF loop this] have "map fst probs = map fst ?init"
    by (simp add: deepcopy_cnts_keys keys)
  then have "fst ` set probs = fst ` set ?init" by (metis list.set_map)
  then show "fst ` set probs = set (hd (end_states h) # states h)"
    by (simp add: empty_rows_keys hd)
  {
    assume s: "s \<in> set (hd (end_states h) # states h)"
    with transition_count_all_rows[OF cnt, of s] hd
    have row: "map_of cnts s = Some (count_into [] (corpus_successors obs s))"
      by (auto simp add: empty_rows_map_of)
    with transition_probs_loop_map_of[OF loop dist, of s]
    show "map_of probs s = Some (normalized_row (count_into [] (corpus_successors obs s)))"
      by simp
  }
qed


section \<open>Training\<close>

lemma train_result:
  assumes "train h obs = Inr h'"
  shows "\<exists>h1. estimate_emission h obs 1 = Inr (emission_probs h', h1)"
    and "\<exists>h1 h2. states h1 = states h \<and> end_states h1 = end_states h \<and>
           estimate_transition h1 obs = Inr (transition_probs h', h2)"
    and "states h' = states h" and "end_states h' = end_states h"
    and "training_words h' = count_into (training_words h) (map fst (emitted h (concat obs)))"
proof -
  from assms obtain eprobs h1 tprobs h3 where
    e: "estimate_emission h obs 1 = Inr (eprobs, h1)" and
    t: "estimate_transition (h1\<lparr>emission_probs := eprobs\<rparr>) obs = Inr (tprobs, h3)" and
    h': "h' = h3\<lparr>transition_probs := tprobs\<rparr>"
    by (auto simp add: train_def Let_def split: sum.splits prod.splits)
  from estimate_emission_result(1)[OF e] have
    h1: "h1 = h\<lparr>training_words := count_into (training_words h) (map fst (emitted h (concat obs)))\<rparr>" .
  from estimate_transition_result(1)[OF t] obtain cnts where
    h3: "h3 = h1\<lparr>emission_probs := eprobs, transition_cnts := cnts\<rparr>" by auto
  from h' h3 h1 show "states h' = states h" "end_states h' = end_states h"
    "training_words h' = count_into (training_words h) (map fst (emitted h (concat obs)))"
    by simp_all
  from h' h3 e show "\<exists>h1. estimate_emission h obs 1 = Inr (emission_probs h', h1)" by simp
  have "states (h1\<lparr>emission_probs := eprobs\<rparr>) = states h \<and>
        end_states (h1\<lparr>emission_probs := eprobs\<rparr>) = end_states h \<and>
        estimate_transition (h1\<lparr>emission_probs := eprobs\<rparr>) obs = Inr (transition_probs h', h3)"
    using t h' h1 by simp
  then show "\<exists>h1 h2. states h1 = states h \<and> end_states h1 = end_states h \<and>
           estimate_transition h1 obs = Inr (transition_probs h', h2)" by blast
qed

lemma example_trained: "train (HMM_init example_states) example_corpus = Inr example_model"
  by code_simp

section \<open>Emission estimates\<close>

text \<open>
  Claim C1, as far as the code goes. When \<open>estimate_emission\<close> returns a table for the
  smoothing constant \<open>k\<close>, every interior state \<open>s\<close> has a row in it. With \<open>C\<close> the
  total emission count of \<open>s\<close>: each token \<open>w\<close> observed \<open>c\<close> times under \<open>s\<close>, other
  than the text of the unknown token, has the entry \<open>c / (C + k)\<close>; the unknown token
  has the entry \<open>k / (C + k)\<close>; and when the text of the unknown token was not itself
  observed under \<open>s\<close>, the entries of the observed tokens and the entry of the unknown
  token add up to exactly 1.
\<close>

theorem emission_mle:
  assumes "estimate_emission h obs k = Inr (probs, h')" and "s \<in> set (states h)"
  shows "\<exists>row. map_of probs s = Some row
     \<and> (\<forall>w \<in> set (emissions_of h (concat obs) s). w \<noteq> UNKNOWN_TOKEN \<longrightarrow>
          map_of row w = Some (of_nat (count_list (emissions_of h (concat obs) s) w)
                               / (of_nat (length (emissions_of h (concat obs) s)) + k)))
     \<and> map_of row UNKNOWN_TOKEN = Some (k / (of_nat (length (emissions_of h (concat obs) s)) + k))
     \<and> (UNKNOWN_TOKEN \<notin> set (emissions_of h (concat obs) s) \<longrightarrow>
          (\<Sum>w \<in> set (emissions_of h (concat obs) s). dict_get0 row w) + dict_get0 row UNKNOWN_TOKEN = 1)"
proof -
  let ?ws = "emissions_of h (concat obs) s"
  let ?row = "smoothed_row (count_into [] ?ws) k"
  let ?C = "of_nat (length ?ws) :: rat"
  have row: "map_of probs s = Some ?row"
    using assms by (rule estimate_emission_result(3))
  have nz: "?C + k \<noteq> 0"
    using assms by (rule estimate_emission_result(4))
  have total: "sum_list (map snd (count_into [] ?ws)) = length ?ws"
    by (simp add: count_into_sum)
  have tok: "map_of ?row w = Some (of_nat (count_list ?ws w) / (?C + k))"
    if "w \<in> set ?ws" "w \<noteq> UNKNOWN_TOKEN" for w
    using that by (simp add: smoothed_row_token total count_into_map_of)
  have unk: "map_of ?row UNKNOWN_TOKEN = Some (k / (?C + k))"
    by (simp add: smoothed_row_unknown total)
  have sum1: "(\<Sum>w \<in> set ?ws. dict_get0 ?row w) + dict_get0 ?row UNKNOWN_TOKEN = 1"
    if "UNKNOWN_TOKEN \<notin> set ?ws"
  proof -
    have "dict_get0 ?row w = of_nat (count_list ?ws w) / (?C + k)" if w: "w \<in> set ?ws" for w
    proof -
      from w \<open>UNKNOWN_TOKEN \<notin> set ?ws\<close> have "w \<noteq> UNKNOWN_TOKEN" by auto
      with w show ?thesis by (simp add: dict_get0_def tok)
    qed
    then have "(\<Sum>w \<in> set ?ws. dict_get0 ?row w) = (\<Sum>w \<in> set ?ws. of_nat (count_list ?ws w) / (?C + k))"
      by (intro sum.cong refl)
    also have "\<dots> = of_nat (\<Sum>w \<in> set ?ws. count_list ?ws w) / (?C + k)"
      by (simp add: sum_divide_distrib)
    also have "(\<Sum>w \<in> set ?ws. count_list ?ws w) = length ?ws"
      by (rule sum_count_set) simp_all
    finally have "(\<Sum>w \<in> set ?ws. dict_get0 ?row w) = ?C / (?C + k)" .
    moreover have "dict_get0 ?row UNKNOWN_TOKEN = k / (?C + k)"
      by (simp add: dict_get0_def unk)
    ultimately show ?thesis using nz by (simp add: add_divide_distrib[symmetric])
  qed
  from row tok unk sum1 show ?thesis by blast
qed

theorem emission_mle_witness:
  "estimate_emission (HMM_init example_states) example_corpus 1
     = Inr (emission_probs example_model,
            (HMM_init example_states)\<lparr>training_words := [(''x'', 3), (''y'', 1)]\<rparr>)
   \<and> ''B'' \<in> set (states (HMM_init example_states))
   \<and> (\<exists>row. map_of (emission_probs example_model) ''B'' = Some row
        \<and> map_of row ''x'' = Some (1 / 3) \<and> map_of row ''y'' = Some (1 / 3)
        \<and> map_of row UNKNOWN_TOKEN = Some (1 / 3)
        \<and> dict_get0 row ''x'' + dict_get0 row ''y'' + dict_get0 row UNKNOWN_TOKEN = 1)"
proof -
  let ?h = "HMM_init example_states"
  have e: "estimate_emission ?h example_corpus 1
     = Inr (emission_probs example_model, ?h\<lparr>training_words := [(''x'', 3), (''y'', 1)]\<rparr>)"
    by code_simp
  have s: "''B'' \<in> set (states ?h)" by code_simp
  have ws: "emissions_of ?h (concat example_corpus) ''B'' = [''y'', ''x'']" by code_simp
  have u: "UNKNOWN_TOKEN = ''#UNK#''" by (simp add: UNKNOWN_TOKEN_def)
  from emission_mle[OF e s] obtain row where
    row: "map_of (emission_probs example_model) ''B'' = Some row" and
    tok: "\<forall>w \<in> set [''y'', ''x'']. w \<noteq> UNKNOWN_TOKEN \<longrightarrow>
            map_of row w = Some (of_nat (count_list [''y'', ''x''] w) / (of_nat (length [''y'', ''x'']) + 1))" and
    unk: "map_of row UNKNOWN_TOKEN = Some (1 / (of_nat (length [''y'', ''x'']) + 1))" and
    total: "UNKNOWN_TOKEN \<notin> set [''y'', ''x''] \<longrightarrow>
            (\<Sum>w \<in> set [''y'', ''x'']. dict_get0 row w) + dict_get0 row UNKNOWN_TOKEN = 1"
    unfolding ws by blast
  from tok have "map_of row ''x'' = Some (1 / 3)" "map_of row ''y'' = Some (1 / 3)"
    by (simp_all add: u)
  moreover from unk have "map_of row UNKNOWN_TOKEN = Some (1 / 3)" by simp
  moreover from total have "dict_get0 row ''x'' + dict_get0 row ''y'' + dict_get0 row UNKNOWN_TOKEN = 1"
    by (simp add: u add.commute)
  ultimately show ?thesis using e s row by blast
qed

text \<open>
  The claim as it is written fails where the corpus contains the text of the unknown
  token as a word: in \<open>unk_corpus\<close> it is observed twice under \<open>A\<close>, which emits nothing
  else, so the claim gives it \<open>2 / (2 + 1)\<close>; the table holds \<open>1 / 3\<close>, and the observed
  entries and the unknown entry add up to \<open>2 / 3\<close>.
\<close>

theorem emission_mle_counterexample:
  "estimate_emission (HMM_init example_states) unk_corpus 1
     = Inr ([(''A'', [(''#UNK#'', 1 / 3)]), (''B'', [(''z'', 1 / 2), (''#UNK#'', 1 / 2)])],
            (HMM_init example_states)\<lparr>training_words := [(''#UNK#'', 2), (''z'', 1)]\<rparr>)
   \<and> emissions_of (HMM_init example_states) (concat unk_corpus) ''A'' = [''#UNK#'', ''#UNK#'']
   \<and> (1 / 3 :: rat) \<noteq> 2 / (2 + 1)
   \<and> (1 / 3 :: rat) + 1 / 3 \<noteq> 1"
proof -
  have "estimate_emission (HMM_init example_states) unk_corpus 1
     = Inr ([(''A'', [(''#UNK#'', 1 / 3)]), (''B'', [(''z'', 1 / 2), (''#UNK#'', 1 / 2)])],
            (HMM_init example_states)\<lparr>training_words := [(''#UNK#'', 2), (''z'', 1)]\<rparr>)"
    by code_simp
  moreover have "emissions_of (HMM_init example_states) (concat unk_corpus) ''A''
     = [''#UNK#'', ''#UNK#'']"
    by code_simp
  ultimately show ?thesis by simp
qed

text \<open>
  Claim C10. After training, every interior state \<open>s\<close> of the model has a row in the
  emission table, and the row has an entry for the unknown token: \<open>1 / (C + 1)\<close> for
  the total emission count \<open>C\<close> of \<open>s\<close> (training smooths with \<open>k = 1\<close>), which is
  positive. For a state that the corpus never shows, the entry is 1 and it is the only
  entry of the row.
\<close>

theorem unknown_entry_everywhere:
  assumes "train h obs = Inr h'" and "s \<in> set (states h)"
  shows "\<exists>row. map_of (emission_probs h') s = Some row
     \<and> map_of row UNKNOWN_TOKEN = Some (1 / (of_nat (length (emissions_of h (concat obs) s)) + 1))
     \<and> 0 < dict_get0 row UNKNOWN_TOKEN
     \<and> (emissions_of h (concat obs) s = [] \<longrightarrow> row = [(UNKNOWN_TOKEN, 1)])"
proof -
  let ?ws = "emissions_of h (concat obs) s"
  let ?row = "smoothed_row (count_into [] ?ws) 1"
  from train_result(1)[OF assms(1)] obtain h1 where
    e: "estimate_emission h obs 1 = Inr (emission_probs h', h1)" by blast
  have row: "map_of (emission_probs h') s = Some ?row"
    using e assms(2) by (rule estimate_emission_result(3))
  have unk: "map_of ?row UNKNOWN_TOKEN = Some (1 / (of_nat (length ?ws) + 1))"
    by (simp add: smoothed_row_unknown count_into_sum)
  have "(0::rat) < 1 / (of_nat (length ?ws) + 1)"
    by (simp add: add_nonneg_pos)
  with unk have pos: "0 < dict_get0 ?row UNKNOWN_TOKEN" by (simp add: dict_get0_def)
  have only: "?row = [(UNKNOWN_TOKEN, 1)]" if "?ws = []"
    using that by (simp add: count_into_Nil smoothed_row_empty)
  from row unk pos only show ?thesis by blast
qed

theorem unknown_entry_everywhere_witness:
  "train (HMM_init [''START'', ''STOP'', ''A'', ''B'', ''C'']) example_corpus
     = Inr (example_model\<lparr>states := [''A'', ''B'', ''C''],
              emission_probs := emission_probs example_model @ [(''C'', [(''#UNK#'', 1)])],
              transition_probs := transition_probs example_model @ [(''C'', [])],
              transition_cnts := transition_cnts example_model @ [(''C'', [])]\<rparr>)
   \<and> ''C'' \<in> set (states (HMM_init [''START'', ''STOP'', ''A'', ''B'', ''C'']))
   \<and> map_of (emission_probs example_model @ [(''C'', [(''#UNK#'', 1)])]) ''C''
       = Some [(UNKNOWN_TOKEN, 1)]"
proof -
  let ?h = "HMM_init [''START'', ''STOP'', ''A'', ''B'', ''C'']"
  let ?h' = "example_model\<lparr>states := [''A'', ''B'', ''C''],
              emission_probs := emission_probs example_model @ [(''C'', [(''#UNK#'', 1)])],
              transition_probs := transition_probs example_model @ [(''C'', [])],
              transition_cnts := transition_cnts example_model @ [(''C'', [])]\<rparr>"
  have t: "train ?h example_corpus = Inr ?h'" by code_simp
  have s: "''C'' \<in> set (states ?h)" by code_simp
  have ws: "emissions_of ?h (concat example_corpus) ''C'' = []" by code_simp
  from unknown_entry_everywhere[OF t s] ws
  have "map_of (emission_probs ?h') ''C'' = Some [(UNKNOWN_TOKEN, 1)]" by auto
  with t s show ?thesis by simp
qed

section \<open>Emission lookup\<close>

text \<open>
  Claim C4, as far as the code goes. In a trained model, for an interior state \<open>s\<close>: a
  token that is not in the vocabulary (neither in the vocabulary the model had before nor
  emitted anywhere in the corpus) is given the unknown-token probability of \<open>s\<close>; a token
  that is in the vocabulary but was never observed under \<open>s\<close>, and is not the text of the
  unknown token, is given 0.
\<close>

theorem emission_lookup_cases:
  assumes "train h obs = Inr h'" and "s \<in> set (states h)"
  shows "(w \<notin> fst ` set (training_words h) \<union> fst ` set (emitted h (concat obs)) \<longrightarrow>
           get_emission_probability h' s w
             = Inr (1 / (of_nat (length (emissions_of h (concat obs) s)) + 1)))
       \<and> (w \<in> fst ` set (training_words h) \<union> fst ` set (emitted h (concat obs)) \<and>
          w \<notin> set (emissions_of h (concat obs) s) \<and> w \<noteq> UNKNOWN_TOKEN \<longrightarrow>
           get_emission_probability h' s w = Inr 0)"
proof -
  let ?ws = "emissions_of h (concat obs) s"
  let ?row = "smoothed_row (count_into [] ?ws) 1"
  from train_result(1)[OF assms(1)] obtain h1 where
    e: "estimate_emission h obs 1 = Inr (emission_probs h', h1)" by blast
  have row: "map_of (emission_probs h') s = Some ?row"
    using e assms(2) by (rule estimate_emission_result(3))
  have unk: "map_of ?row UNKNOWN_TOKEN = Some (1 / (of_nat (length ?ws) + 1))"
    by (simp add: smoothed_row_unknown count_into_sum)
  have voc: "fst ` set (training_words h') =
      fst ` set (training_words h) \<union> fst ` set (emitted h (concat obs))"
    by (simp add: train_result(5)[OF assms(1)] count_into_keys)
  have known: "map_of (training_words h') w = None \<longleftrightarrow>
      w \<notin> fst ` set (training_words h) \<union> fst ` set (emitted h (concat obs))"
    unfolding voc[symmetric] by (simp add: map_of_eq_None_iff)
  have a: "get_emission_probability h' s w = Inr (1 / (of_nat (length ?ws) + 1))"
    if "w \<notin> fst ` set (training_words h) \<union> fst ` set (emitted h (concat obs))"
    using that known row unk by (simp add: get_emission_probability_def)
  have b: "get_emission_probability h' s w = Inr 0"
    if "w \<in> fst ` set (training_words h) \<union> fst ` set (emitted h (concat obs))"
      "w \<notin> set ?ws" "w \<noteq> UNKNOWN_TOKEN"
  proof -
    from that(1) known have "map_of (training_words h') w \<noteq> None" by blast
    moreover from that(2,3) have "dict_get0 ?row w = 0"
      by (simp add: dict_get0_def smoothed_row_token count_into_map_of)
    ultimately show ?thesis using row by (auto simp add: get_emission_probability_def)
  qed
  from a b show ?thesis by blast
qed

theorem emission_lookup_cases_witness:
  "train (HMM_init example_states) example_corpus = Inr example_model
   \<and> ''A'' \<in> set (states (HMM_init example_states))
   \<and> get_emission_probability example_model ''A'' ''q'' = Inr (1 / 3)
   \<and> get_emission_probability example_model ''A'' ''y'' = Inr 0"
proof -
  let ?h = "HMM_init example_states"
  have s: "''A'' \<in> set (states ?h)" by code_simp
  have ws: "emissions_of ?h (concat example_corpus) ''A'' = [''x'', ''x'']" by code_simp
  have voc: "fst ` set (training_words ?h) \<union> fst ` set (emitted ?h (concat example_corpus))
      = {''x'', ''y''}" by code_simp
  have u: "UNKNOWN_TOKEN = ''#UNK#''" by (simp add: UNKNOWN_TOKEN_def)
  from emission_lookup_cases[OF example_trained s, of "''q''"]
  have "get_emission_probability example_model ''A'' ''q'' = Inr (1 / 3)"
    unfolding voc ws by simp
  moreover from emission_lookup_cases[OF example_trained s, of "''y''"]
  have "get_emission_probability example_model ''A'' ''y'' = Inr 0"
    unfolding voc ws by (simp add: u)
  ultimately show ?thesis using example_trained s by simp
qed

text \<open>
  The claim as it is written fails for the text of the unknown token: in \<open>unk_corpus\<close>
  it is seen in training, never under \<open>B\<close>, and the lookup for \<open>B\<close> returns the
  unknown-token probability of \<open>B\<close>, which is not 0.
\<close>

theorem emission_lookup_cases_counterexample:
  "''#UNK#'' \<in> fst ` set (emitted (HMM_init example_states) (concat unk_corpus))
   \<and> ''#UNK#'' \<notin> set (emissions_of (HMM_init example_states) (concat unk_corpus) ''B'')
   \<and> (case train (HMM_init example_states) unk_corpus of
         Inl e \<Rightarrow> Inl e
       | Inr h \<Rightarrow> get_emission_probability h ''B'' ''#UNK#'') = Inr (1 / 2)"
  by code_simp

section \<open>Transition estimates\<close>




section \<open>Arguments of the Viterbi step\<close>

lemma signals_Inl: "signals_invalid_argument (Inl e) = is_invalid_argument e"
  by (simp add: signals_invalid_argument_def)

lemma not_signals_InlD: "\<not> signals_invalid_argument r \<Longrightarrow> r = Inl e \<Longrightarrow> \<not> is_invalid_argument e"
  by (simp add: signals_invalid_argument_def)

lemma graph_set_not_invalid: "\<not> signals_invalid_argument (graph_set g i s n)"
  by (simp add: graph_set_def signals_invalid_argument_def split: option.splits)

lemma graph_get_not_invalid: "\<not> signals_invalid_argument (graph_get g i s)"
  by (simp add: graph_get_def signals_invalid_argument_def split: option.splits)

lemma get_transition_not_invalid: "\<not> signals_invalid_argument (get_transition_probability h a b)"
  by (simp add: get_transition_probability_def signals_invalid_argument_def split: option.splits)

lemma get_emission_not_invalid: "\<not> signals_invalid_argument (get_emission_probability h a b)"
  by (simp add: get_emission_probability_def signals_invalid_argument_def split: option.splits)

lemma max_itemgetter1_not_invalid: "\<not> signals_invalid_argument (max_itemgetter1 xs)"
  by (simp add: max_itemgetter1_def signals_invalid_argument_def split: list.splits)

lemma py_get_not_invalid: "\<not> signals_invalid_argument (py_get xs i)"
  by (simp add: py_get_def signals_invalid_argument_def)

lemma dp_forward_not_invalid:
  "\<not> signals_invalid_argument (dp_forward h i s sq g c w ps acc)"
proof (induction ps arbitrary: acc)
  case Nil
  show ?case by (simp add: signals_invalid_argument_def)
next
  case (Cons p ps)
  show ?case
    using graph_get_not_invalid[of g "i - 1" p] get_transition_not_invalid[of h p s]
      get_emission_not_invalid[of h s w] Cons.IH
    by (auto simp add: Let_def signals_Inl split: sum.splits dest: not_signals_InlD)
qed

text \<open>
  Claim C5, as far as the code goes. For a model with a stop state, \<open>_dp_helper\<close> raises
  one of its two invalid-argument errors exactly when the iteration is below 1 or not
  below the length \<open>L\<close> of the sequence (that is, outside of \<open>[1, L)\<close>), or the state is
  neither an interior state nor the stop state.
\<close>

theorem dp_helper_invalid_argument:
  assumes "py_get (end_states h) 1 = Inr stop"
  shows "signals_invalid_argument (dp_helper h iteration curr_state sq g c) \<longleftrightarrow>
         (iteration < 1 \<or> int (length sq) \<le> iteration \<or> curr_state \<notin> set (states h) \<union> {stop})"
proof (cases "iteration < 1 \<or> int (length sq) \<le> iteration")
  case True
  then show ?thesis by (auto simp add: dp_helper_def signals_Inl)
next
  case range: False
  show ?thesis
  proof (cases "curr_state \<in> set (states h) \<union> {stop}")
    case False
    with range assms show ?thesis by (auto simp add: dp_helper_def signals_Inl)
  next
    case True
    let ?w = "process_unknown_word h (fst (sq ! nat iteration))"
    have "\<not> signals_invalid_argument (dp_helper h iteration curr_state sq g c)"
    proof (cases "iteration = 1")
      case True
      with range \<open>curr_state \<in> set (states h) \<union> {stop}\<close> assms show ?thesis
        using py_get_not_invalid[of "end_states h" 0]
          get_transition_not_invalid[of h _ curr_state]
          get_emission_not_invalid[of h curr_state ?w]
          graph_set_not_invalid[of g 1 curr_state]
        by (auto simp add: dp_helper_def Let_def signals_Inl split: sum.splits dest: not_signals_InlD)
    next
      case False
      with range \<open>curr_state \<in> set (states h) \<union> {stop}\<close> assms show ?thesis
        using dp_forward_not_invalid[of h iteration curr_state sq g c ?w "states h" "[]"]
          max_itemgetter1_not_invalid graph_set_not_invalid[of g iteration curr_state]
        by (auto simp add: dp_helper_def Let_def signals_Inl split: sum.splits dest: not_signals_InlD)
    qed
    with range True show ?thesis by simp
  qed
qed

theorem dp_helper_invalid_argument_witness:
  "py_get (end_states example_model) 1 = Inr ''STOP''
   \<and> signals_invalid_argument (dp_helper example_model 4 ''A'' example_sequence example_graph 100)
   \<and> \<not> signals_invalid_argument (dp_helper example_model 2 ''A'' example_sequence example_graph 100)"
proof -
  have s: "py_get (end_states example_model) 1 = Inr ''STOP''" by code_simp
  have l: "length example_sequence = 4" by code_simp
  have a: "''A'' \<in> set (states example_model)" by code_simp
  from dp_helper_invalid_argument[OF s, of 4 "''A''" example_sequence example_graph 100] l
  have "signals_invalid_argument (dp_helper example_model 4 ''A'' example_sequence example_graph 100)"
    by simp
  moreover
  from dp_helper_invalid_argument[OF s, of 2 "''A''" example_sequence example_graph 100] l a
  have "\<not> signals_invalid_argument (dp_helper example_model 2 ''A'' example_sequence example_graph 100)"
    by simp
  ultimately show ?thesis using s by simp
qed

text \<open>
  The claim as it is written puts the last step \<open>L - 1\<close> outside of the range. The code
  accepts it: for the sequence of length 4, step 3 with the stop state fills the graph.
\<close>

theorem dp_helper_invalid_argument_counterexample:
  "\<not> ((1::int) \<le> 3 \<and> (3::int) < int (length example_sequence) - 1)
   \<and> dp_helper example_model 3 ''STOP'' example_sequence example_graph 100
       = Inr [(1, [(''A'', (''START'', 200 / 3)), (''B'', (''START'', 0))]),
              (2, [(''A'', (''A'', 0)), (''B'', (''A'', 20000 / 9))]),
              (3, [(''STOP'', (''B'', 2000000 / 9))])]"
  by code_simp

section \<open>The boundary check\<close>

lemma check_end_states_rejects:
  assumes "length (end_states h) = 2" "ws \<noteq> []"
    and "snd (hd ws) \<noteq> end_states h ! 0 \<or> snd (last ws) \<noteq> end_states h ! 1"
  shows "check_end_states h ws = Inl (boundary_error h ws)"
  using assms
  by (cases ws) (auto simp add: check_end_states_def py_get_def boundary_error_def last_conv_nth)

lemma emission_count_all_append:
  "emission_count_all h (pre @ post) acc =
     (case emission_count_all h pre acc of Inl e \<Rightarrow> Inl e | Inr acc' \<Rightarrow> emission_count_all h post acc')"
  by (induction pre arbitrary: acc) (auto split: sum.splits)

lemma transition_count_all_append:
  "transition_count_all h (pre @ post) acc =
     (case transition_count_all h pre acc of Inl e \<Rightarrow> Inl e | Inr acc' \<Rightarrow> transition_count_all h post acc')"
  by (induction pre arbitrary: acc) (auto split: sum.splits)

lemma estimate_emission_counted:
  "estimate_emission h obs k = Inr r \<Longrightarrow>
   \<exists>acc. emission_count_all h obs
     (training_words h, fold (\<lambda>state d. AList.update state [] d) (states h) []) = Inr acc"
  by (auto simp add: estimate_emission_def Let_def split: sum.splits)

lemma estimate_transition_counted:
  "estimate_transition h obs = Inr r \<Longrightarrow>
   \<exists>start acc. py_get (end_states h) 0 = Inr start \<and> transition_count_all h obs
     (fold (\<lambda>state d. AList.update state [] d) ([start] @ states h) []) = Inr acc"
  by (auto simp add: estimate_transition_def Let_def split: sum.splits)

text \<open>
  For a sequence with a first state that is not the start state or a last state that is
  not the stop state, \<open>_check_end_states\<close> raises a boundary error, and so does the
  Viterbi decoder; either estimator raises it for a corpus in which the sequence follows
  sequences that this estimator accepts.
\<close>

lemma boundary_check_siblings:
  assumes "length (end_states h) = 2" and "ws \<noteq> []"
    and "snd (hd ws) \<noteq> end_states h ! 0 \<or> snd (last ws) \<noteq> end_states h ! 1"
  shows "is_boundary_error (boundary_error h ws)"
    and "check_end_states h ws = Inl (boundary_error h ws)"
    and "viterbi h ws c = Inl (boundary_error h ws)"
    and "viterbi_label h ws c = Inl (boundary_error h ws)"
    and "estimate_emission h pre k = Inr r1 \<Longrightarrow>
         estimate_emission h (pre @ ws # post) k' = Inl (boundary_error h ws)"
    and "estimate_transition h pre' = Inr r2 \<Longrightarrow>
         estimate_transition h (pre' @ ws # post') = Inl (boundary_error h ws)"
proof -
  show chk: "check_end_states h ws = Inl (boundary_error h ws)"
    using assms by (rule check_end_states_rejects)
  show "is_boundary_error (boundary_error h ws)"
    by (simp add: boundary_error_def)
  show v: "viterbi h ws c = Inl (boundary_error h ws)"
    by (simp add: viterbi_def chk)
  show "viterbi_label h ws c = Inl (boundary_error h ws)"
    by (simp add: viterbi_label_def v)
  {
    assume "estimate_emission h pre k = Inr r1"
    from estimate_emission_counted[OF this] obtain acc where
      "emission_count_all h pre
         (training_words h, fold (\<lambda>state d. AList.update state [] d) (states h) []) = Inr acc"
      by blast
    then show "estimate_emission h (pre @ ws # post) k' = Inl (boundary_error h ws)"
      by (simp add: estimate_emission_def emission_count_all_append chk)
  }
  {
    assume "estimate_transition h pre' = Inr r2"
    from estimate_transition_counted[OF this] obtain start acc' where
      "py_get (end_states h) 0 = Inr start"
      "transition_count_all h pre'
         (fold (\<lambda>state d. AList.update state [] d) ([start] @ states h) []) = Inr acc'"
      by blast
    then show "estimate_transition h (pre' @ ws # post') = Inl (boundary_error h ws)"
      by (simp add: estimate_transition_def transition_count_all_append chk)
  }
qed

text \<open>
  Claim C7. Both estimators and the Viterbi decoder run the boundary check before they
  use a sequence. The naive decoder, which the claim includes, never calls it: for the
  sequence of the one pair \<open>(x, '')\<close>, which has no sentinel, the check and the Viterbi
  decoder raise the error for the starting state, both estimators raise it for the
  corpus of this one sequence, and the naive decoder returns a labelled sequence.
\<close>

theorem boundary_check_not_in_naive_labelling:
  "snd (hd [(''x'', [])]) \<noteq> end_states example_model ! 0
   \<and> check_end_states example_model [(''x'', [])] = Inl (InvalidStartingState [])
   \<and> estimate_emission example_model [[(''x'', [])]] 1 = Inl (InvalidStartingState [])
   \<and> estimate_transition example_model [[(''x'', [])]] = Inl (InvalidStartingState [])
   \<and> viterbi example_model [(''x'', [])] 100 = Inl (InvalidStartingState [])
   \<and> naive_label_sequence example_model [(''x'', [])]
       = Inr [([], ''START''), (''x'', ''A''), ([], ''STOP'')]"
  by code_simp

section \<open>Viterbi decoding of a sequence without tokens\<close>

lemma viterbi_no_tokens_general:
  assumes "end_states h = [start, stop]"
    and "sq = [(w0, start), (w1, stop)]"
    and "map_of (emission_probs h) stop = None"
    and "map_of (transition_probs h) start = Some row"
  shows "viterbi h sq c = Inl (KeyError stop)"
  using assms
  by (simp add: viterbi_def check_end_states_def py_get_def dp_helper_def Let_def
      get_transition_probability_def get_emission_probability_def)

text \<open>
  Claim C9. Let a model be trained, with a stop state that is not one of its interior
  states. For a sequence of the two sentinels only, the first step of the Viterbi decoder
  is also its last: it runs the base case for the stop state, looks the stop state up in
  the emission table, which has no row for it, and the decoder fails with that key error.
  No label sequence is returned.
\<close>

theorem viterbi_no_tokens_fails:
  assumes "train h obs = Inr h'" and "end_states h = [start, stop]" and "stop \<notin> set (states h)"
  shows "viterbi h' [(w0, start), (w1, stop)] c = Inl (KeyError stop)
       \<and> viterbi_label h' [(w0, start), (w1, stop)] c = Inl (KeyError stop)
       \<and> viterbi_predict h' [[(w0, start), (w1, stop)]] = Inl (KeyError stop)"
proof -
  from train_result(1)[OF assms(1)] obtain h1 where
    e: "estimate_emission h obs 1 = Inr (emission_probs h', h1)" by blast
  from train_result(2)[OF assms(1)] obtain h2 h3 where
    h2: "states h2 = states h" "end_states h2 = end_states h" and
    t: "estimate_transition h2 obs = Inr (transition_probs h', h3)" by blast
  have ends: "end_states h' = [start, stop]"
    using train_result(4)[OF assms(1)] assms(2) by simp
  have "stop \<notin> fst ` set (emission_probs h')"
    using estimate_emission_result(2)[OF e] assms(3) by simp
  then have none: "map_of (emission_probs h') stop = None"
    by (simp add: map_of_eq_None_iff)
  have "start \<in> set (hd (end_states h2) # states h2)" using h2 assms(2) by simp
  from estimate_transition_result(4)[OF t this] obtain row where
    row: "map_of (transition_probs h') start = Some row" by blast
  have v: "viterbi h' [(w0, start), (w1, stop)] c = Inl (KeyError stop)" for c
    using ends refl none row by (rule viterbi_no_tokens_general)
  then show ?thesis by (simp add: viterbi_label_def)
qed

theorem viterbi_no_tokens_fails_witness:
  "train (HMM_init example_states) example_corpus = Inr example_model
   \<and> end_states (HMM_init example_states) = [''START'', ''STOP'']
   \<and> ''STOP'' \<notin> set (states (HMM_init example_states))
   \<and> viterbi example_model [([], ''START''), ([], ''STOP'')] 100 = Inl (KeyError ''STOP'')"
proof -
  have e: "end_states (HMM_init example_states) = [''START'', ''STOP'']" by code_simp
  have s: "''STOP'' \<notin> set (states (HMM_init example_states))" by code_simp
  from viterbi_no_tokens_fails[OF example_trained e s, of "[]" "[]" 100]
  show ?thesis using example_trained e s by simp
qed

section \<open>Training twice\<close>

lemma check_end_states_cong:
  "end_states h2 = end_states h \<Longrightarrow> check_end_states h2 ws = check_end_states h ws"
  unfolding check_end_states_def by (erule subst) (rule refl)

lemma emission_count_seq_cong:
  assumes "states h2 = states h" and "end_states h2 = end_states h"
  shows "map_sum id snd (emission_count_seq h2 ws (tw2, cnts))
       = map_sum id snd (emission_count_seq h ws (tw, cnts))"
proof (induction ws arbitrary: tw tw2 cnts)
  case Nil
  show ?case by simp
next
  case (Cons p ws)
  obtain word state where p: "p = (word, state)" by (cases p)
  show ?case using assms Cons.IH by (simp add: p split: option.splits)
qed

lemma emission_count_all_cong:
  assumes "states h2 = states h" and "end_states h2 = end_states h"
  shows "map_sum id snd (emission_count_all h2 obs (tw2, cnts))
       = map_sum id snd (emission_count_all h obs (tw, cnts))"
proof (induction obs arbitrary: tw tw2 cnts)
  case Nil
  show ?case by simp
next
  case (Cons ws obs)
  have chk: "check_end_states h2 ws = check_end_states h ws"
    using assms(2) by (rule check_end_states_cong)
  show ?case
  proof (cases "check_end_states h ws")
    case (Inl e)
    with chk show ?thesis by simp
  next
    case (Inr b)
    note one = emission_count_seq_cong[OF assms, of ws tw2 cnts tw]
    show ?thesis
    proof (cases "emission_count_seq h ws (tw, cnts)")
      case (Inl e)
      with one obtain e2 where "emission_count_seq h2 ws (tw2, cnts) = Inl e2" "e2 = e"
        by (cases "emission_count_seq h2 ws (tw2, cnts)") auto
      with Inl chk Inr show ?thesis by simp
    next
      case (Inr acc)
      obtain tw1 cnts1 where acc: "acc = (tw1, cnts1)" by (cases acc)
      with one Inr obtain tw1' where "emission_count_seq h2 ws (tw2, cnts) = Inr (tw1', cnts1)"
        by (cases "emission_count_seq h2 ws (tw2, cnts)") auto
      with Inr acc chk \<open>check_end_states h ws = Inr b\<close> Cons.IH[of tw1' cnts1 tw1]
      show ?thesis by simp
    qed
  qed
qed

lemma estimate_emission_cong:
  assumes "states h2 = states h" and "end_states h2 = end_states h"
  shows "map_sum id fst (estimate_emission h2 obs k) = map_sum id fst (estimate_emission h obs k)"
proof -
  let ?init = "fold (\<lambda>state d. AList.update state [] d) (states h) [] ::
    (state, (token, nat) dict) dict"
  note c = emission_count_all_cong[OF assms, of obs "training_words h2" ?init "training_words h"]
  show ?thesis
  proof (cases "emission_count_all h obs (training_words h, ?init)")
    case (Inl e)
    with c have "emission_count_all h2 obs (training_words h2, ?init) = Inl e"
      by (cases "emission_count_all h2 obs (training_words h2, ?init)") auto
    with Inl assms show ?thesis by (simp add: estimate_emission_def)
  next
    case (Inr acc)
    obtain tw1 cnts1 where acc: "acc = (tw1, cnts1)" by (cases acc)
    with c Inr obtain tw1' where
      "emission_count_all h2 obs (training_words h2, ?init) = Inr (tw1', cnts1)"
      by (cases "emission_count_all h2 obs (training_words h2, ?init)") auto
    with Inr acc assms show ?thesis
      by (simp add: estimate_emission_def split: sum.splits)
  qed
qed

lemma transition_count_all_cong:
  assumes "end_states h2 = end_states h"
  shows "transition_count_all h2 obs cnts = transition_count_all h obs cnts"
  by (induction obs arbitrary: cnts)
     (simp_all add: check_end_states_cong[OF assms] split: sum.splits)

lemma estimate_transition_cong:
  assumes "states h2 = states h" and "end_states h2 = end_states h"
  shows "map_sum id fst (estimate_transition h2 obs) = map_sum id fst (estimate_transition h obs)"
  using assms
  by (simp add: estimate_transition_def Let_def transition_count_all_cong[OF assms(2)]
      split: sum.splits)

lemma estimate_emission_fields:
  "estimate_emission h obs k = Inr (probs, h1) \<Longrightarrow>
   states h1 = states h \<and> end_states h1 = end_states h"
  by (auto simp add: estimate_emission_def Let_def split: sum.splits prod.splits)

lemma estimate_transition_fields:
  "estimate_transition h obs = Inr (probs, h1) \<Longrightarrow>
   states h1 = states h \<and> end_states h1 = end_states h \<and> emission_probs h1 = emission_probs h"
  by (auto simp add: estimate_transition_def Let_def split: sum.splits prod.splits)

lemma train_tables:
  assumes "train h obs = Inr h'"
  shows "\<exists>h1 h2. estimate_emission h obs 1 = Inr (emission_probs h', h1)
      \<and> estimate_transition h obs = Inr (transition_probs h', h2)
      \<and> states h' = states h \<and> end_states h' = end_states h"
proof -
  from assms obtain eprobs h1 tprobs h3 where
    e: "estimate_emission h obs 1 = Inr (eprobs, h1)" and
    t: "estimate_transition (h1\<lparr>emission_probs := eprobs\<rparr>) obs = Inr (tprobs, h3)" and
    h': "h' = h3\<lparr>transition_probs := tprobs\<rparr>"
    by (auto simp add: train_def Let_def split: sum.splits prod.splits)
  note f1 = estimate_emission_fields[OF e]
  note f3 = estimate_transition_fields[OF t]
  from f1 have "map_sum id fst (estimate_transition h obs)
      = map_sum id fst (estimate_transition (h1\<lparr>emission_probs := eprobs\<rparr>) obs)"
    by (intro estimate_transition_cong[symmetric]) simp_all
  with t obtain h2 where "estimate_transition h obs = Inr (tprobs, h2)"
    by (cases "estimate_transition h obs") auto
  with e h' f1 f3 show ?thesis by simp
qed

lemma train_from_tables:
  assumes "estimate_emission h obs 1 = Inr (eprobs, h1)"
    and "estimate_transition h obs = Inr (tprobs, h2)"
  shows "\<exists>h'. train h obs = Inr h' \<and> emission_probs h' = eprobs \<and> transition_probs h' = tprobs"
proof -
  note f1 = estimate_emission_fields[OF assms(1)]
  from f1 have "map_sum id fst (estimate_transition (h1\<lparr>emission_probs := eprobs\<rparr>) obs)
      = map_sum id fst (estimate_transition h obs)"
    by (intro estimate_transition_cong) simp_all
  with assms(2) obtain h3 where
    t: "estimate_transition (h1\<lparr>emission_probs := eprobs\<rparr>) obs = Inr (tprobs, h3)"
    by (cases "estimate_transition (h1\<lparr>emission_probs := eprobs\<rparr>) obs") auto
  note f3 = estimate_transition_fields[OF t]
  from assms(1) t f3 show ?thesis by (simp add: train_def)
qed

text \<open>
  Claim C8. When training on a corpus returns a model, training that model on the same
  corpus again returns a model too, and its emission table and its transition table are
  the tables of the first: both estimators start from empty counts on each call.
\<close>

theorem train_twice:
  assumes "train h obs = Inr h1"
  shows "\<exists>h2. train h1 obs = Inr h2
      \<and> emission_probs h2 = emission_probs h1 \<and> transition_probs h2 = transition_probs h1"
proof -
  from train_tables[OF assms] obtain a b where
    e: "estimate_emission h obs 1 = Inr (emission_probs h1, a)" and
    t: "estimate_transition h obs = Inr (transition_probs h1, b)" and
    f: "states h1 = states h" "end_states h1 = end_states h" by blast
  from estimate_emission_cong[OF f, of obs 1] e obtain a' where
    e': "estimate_emission h1 obs 1 = Inr (emission_probs h1, a')"
    by (cases "estimate_emission h1 obs 1") auto
  from estimate_transition_cong[OF f, of obs] t obtain b' where
    t': "estimate_transition h1 obs = Inr (transition_probs h1, b')"
    by (cases "estimate_transition h1 obs") auto
  from train_from_tables[OF e' t'] show ?thesis .
qed

theorem train_twice_witness:
  "train (HMM_init example_states) example_corpus = Inr example_model
   \<and> train example_model example_corpus
       = Inr (example_model\<lparr>training_words := [(''x'', 6), (''y'', 2)]\<rparr>)"
proof -
  have t: "train example_model example_corpus
       = Inr (example_model\<lparr>training_words := [(''x'', 6), (''y'', 2)]\<rparr>)"
    by code_simp
  from train_twice[OF example_trained] obtain h2 where
    "train example_model example_corpus = Inr h2"
    "emission_probs h2 = emission_probs example_model"
    "transition_probs h2 = transition_probs example_model" by blast
  with t example_trained show ?thesis by simp
qed

section \<open>Naive decoding\<close>

lemma max_loop_split:
  "\<exists>pre post. best # xs = pre @ max_loop best xs # post
     \<and> (\<forall>y \<in> set pre. snd y < snd (max_loop best xs))
     \<and> (\<forall>y \<in> set post. snd y \<le> snd (max_loop best xs))"
proof (induction xs arbitrary: best)
  case Nil
  have "[best] = [] @ max_loop best [] # [] \<and> (\<forall>y \<in> set []. snd y < snd (max_loop best []))
      \<and> (\<forall>y \<in> set []. snd y \<le> snd (max_loop best []))" by simp
  then show ?case by blast
next
  case (Cons x xs)
  let ?r = "max_loop best (x # xs)"
  show ?case
  proof (cases "snd x > snd best")
    case True
    then have r: "?r = max_loop x xs" by simp
    from Cons.IH[of x] obtain pre post where
      sp: "x # xs = pre @ max_loop x xs # post" and
      lt: "\<forall>y \<in> set pre. snd y < snd (max_loop x xs)" and
      le: "\<forall>y \<in> set post. snd y \<le> snd (max_loop x xs)" by blast
    have "x \<in> set (pre @ max_loop x xs # post)" unfolding sp[symmetric] by simp
    with lt le have "snd x \<le> snd (max_loop x xs)" by auto
    with True have "snd best < snd (max_loop x xs)" by simp
    with sp lt le have "best # x # xs = (best # pre) @ ?r # post
       \<and> (\<forall>y \<in> set (best # pre). snd y < snd ?r) \<and> (\<forall>y \<in> set post. snd y \<le> snd ?r)"
      unfolding r by simp
    then show ?thesis by blast
  next
    case False
    then have r: "?r = max_loop best xs" by simp
    from Cons.IH[of best] obtain pre post where
      sp: "best # xs = pre @ max_loop best xs # post" and
      lt: "\<forall>y \<in> set pre. snd y < snd (max_loop best xs)" and
      le: "\<forall>y \<in> set post. snd y \<le> snd (max_loop best xs)" by blast
    show ?thesis
    proof (cases pre)
      case Nil
      with sp have "max_loop best xs = best" "post = xs"
        by (metis append_Nil list.inject)+
      with False le have "best # x # xs = [] @ ?r # (x # xs)
         \<and> (\<forall>y \<in> set []. snd y < snd ?r) \<and> (\<forall>y \<in> set (x # xs). snd y \<le> snd ?r)"
        unfolding r by auto
      then show ?thesis by blast
    next
      case (Cons p pre')
      with sp have p: "p = best" and xs: "xs = pre' @ max_loop best xs # post"
        by (metis append_Cons list.inject)+
      from lt Cons p have "snd best < snd (max_loop best xs)" by simp
      with False have "snd x < snd (max_loop best xs)" by simp
      with lt le Cons p xs have "best # x # xs = (best # x # pre') @ ?r # post
         \<and> (\<forall>y \<in> set (best # x # pre'). snd y < snd ?r) \<and> (\<forall>y \<in> set post. snd y \<le> snd ?r)"
        unfolding r by auto
      then show ?thesis by blast
    qed
  qed
qed

lemma find_first:
  "\<forall>y \<in> set pre. \<not> P y \<Longrightarrow> P r \<Longrightarrow> find P (pre @ r # post) = Some r"
  by (induction pre) simp_all

lemma max_itemgetter1_find:
  assumes "nodes \<noteq> []"
  shows "\<exists>best. max_itemgetter1 nodes = Inr best
     \<and> find (\<lambda>(a, p). p = Max (set (map snd nodes))) nodes = Some best"
proof -
  from assms obtain x xs where nodes: "nodes = x # xs" by (cases nodes) auto
  let ?r = "max_loop x xs"
  from max_loop_split[of x xs] obtain pre post where
    sp: "x # xs = pre @ ?r # post" and
    lt: "\<forall>y \<in> set pre. snd y < snd ?r" and
    le: "\<forall>y \<in> set post. snd y \<le> snd ?r" by blast
  have "Max (set (map snd (x # xs))) = snd ?r"
  proof (rule Max_eqI)
    show "finite (set (map snd (x # xs)))" by simp
    show "snd ?r \<in> set (map snd (x # xs))" unfolding sp by simp
    fix v assume "v \<in> set (map snd (x # xs))"
    then have "v \<in> snd ` set (pre @ ?r # post)" unfolding sp by auto
    with lt le show "v \<le> snd ?r" by auto
  qed
  then have m: "Max (set (map snd nodes)) = snd ?r" by (simp add: nodes)
  have "find (\<lambda>(a, p). p = snd ?r) (pre @ ?r # post) = Some ?r"
    using lt by (intro find_first) (auto simp add: case_prod_beta)
  then have "find (\<lambda>(a, p). p = Max (set (map snd nodes))) nodes = Some ?r"
    unfolding m unfolding nodes sp[symmetric] .
  then show ?thesis by (simp add: max_itemgetter1_def nodes)
qed

lemma argmax_emission_first:
  assumes "emission_probs h \<noteq> []"
  shows "\<exists>s. argmax_emission h word = Inr s \<and> first_argmax h word = Some s"
proof -
  from assms have "raw_emissions h word \<noteq> []" by (simp add: raw_emissions_def)
  from max_itemgetter1_find[OF this] obtain best where
    "max_itemgetter1 (raw_emissions h word) = Inr best"
    "find (\<lambda>(a, p). p = Max (set (map snd (raw_emissions h word)))) (raw_emissions h word) = Some best"
    by blast
  with assms show ?thesis
    by (simp add: argmax_emission_def first_argmax_def raw_emissions_def Let_def)
qed

lemma naive_label_loop_result:
  assumes "emission_probs h \<noteq> []"
  shows "\<exists>labelled. naive_label_loop h sq prediction = Inr (prediction @ labelled)
     \<and> map fst labelled = map fst (emitted h sq)
     \<and> (\<forall>(word, state) \<in> set labelled. first_argmax h word = Some state)"
proof (induction sq arbitrary: prediction)
  case Nil
  show ?case by (simp add: emitted_def)
next
  case (Cons p sq)
  obtain word state where p: "p = (word, state)" by (cases p)
  show ?case
  proof (cases "state \<in> set (end_states h)")
    case True
    with Cons.IH[of prediction] p show ?thesis by (simp add: emitted_def)
  next
    case False
    from argmax_emission_first[OF assms, of word] obtain s where
      s: "argmax_emission h word = Inr s" "first_argmax h word = Some s" by blast
    from Cons.IH[of "prediction @ [(word, s)]"] obtain labelled where
      l: "naive_label_loop h sq (prediction @ [(word, s)]) = Inr ((prediction @ [(word, s)]) @ labelled)"
        "map fst labelled = map fst (emitted h sq)"
        "\<forall>(word, state) \<in> set labelled. first_argmax h word = Some state" by blast
    from False p s l have "naive_label_loop h (p # sq) prediction = Inr (prediction @ ((word, s) # labelled))
       \<and> map fst ((word, s) # labelled) = map fst (emitted h (p # sq))
       \<and> (\<forall>(word, state) \<in> set ((word, s) # labelled). first_argmax h word = Some state)"
      by (simp add: emitted_def)
    then show ?thesis by blast
  qed
qed

lemma argmax_emission_fields:
  "emission_probs h2 = emission_probs h \<Longrightarrow> argmax_emission h2 word = argmax_emission h word"
  by (simp add: argmax_emission_def)

lemma naive_label_loop_fields:
  assumes "emission_probs h2 = emission_probs h" and "end_states h2 = end_states h"
  shows "naive_label_loop h2 sq prediction = naive_label_loop h sq prediction"
proof (induction sq arbitrary: prediction)
  case Nil
  show ?case by simp
next
  case (Cons p sq)
  obtain word state where p: "p = (word, state)" by (cases p)
  show ?case using assms Cons.IH
    by (simp add: p argmax_emission_fields[OF assms(1)] split: sum.splits)
qed

lemma estimate_emission_distinct:
  assumes "estimate_emission h obs k = Inr (probs, h')"
  shows "distinct (map fst probs)"
proof -
  let ?init = "fold (\<lambda>state d. AList.update state [] d) (states h) [] ::
    (state, (token, nat) dict) dict"
  from assms obtain tw cnts where
    cnt: "emission_count_all h obs (training_words h, ?init) = Inr (tw, cnts)" and
    loop: "emission_probs_loop cnts k (deepcopy_cnts cnts) = Inr probs"
    by (auto simp add: estimate_emission_def Let_def split: sum.splits prod.splits)
  have keys: "map fst cnts = map fst ?init" by (rule emission_count_all_keys[OF cnt])
  have dist: "distinct (map fst cnts)" unfolding keys by (rule empty_rows_distinct) simp
  have "fst ` set cnts \<subseteq> fst ` set (deepcopy_cnts cnts)"
    by (metis deepcopy_cnts_keys list.set_map order_refl)
  from emission_probs_loop_keys[OF loop this] have "map fst probs = map fst cnts"
    by (simp add: deepcopy_cnts_keys)
  with dist show ?thesis by simp
qed

lemma trained_raw_emissions:
  assumes "train h obs = Inr h'" and "(s, p) \<in> set (raw_emissions h' w)"
  shows "s \<in> set (states h)"
    and "p = dict_get0 (smoothed_row (count_into [] (emissions_of h (concat obs) s)) 1) w"
proof -
  from train_result(1)[OF assms(1)] obtain h1 where
    e: "estimate_emission h obs 1 = Inr (emission_probs h', h1)" by blast
  from assms(2) obtain row where
    row: "(s, row) \<in> set (emission_probs h')" and p: "p = dict_get0 row w"
    by (auto simp add: raw_emissions_def)
  from row have "s \<in> fst ` set (emission_probs h')" by force
  then show s: "s \<in> set (states h)" using estimate_emission_result(2)[OF e] by simp
  from estimate_emission_distinct[OF e] row have "map_of (emission_probs h') s = Some row"
    by (rule map_of_is_SomeI)
  with estimate_emission_result(3)[OF e s] p
  show "p = dict_get0 (smoothed_row (count_into [] (emissions_of h (concat obs) s)) 1) w"
    by simp
qed

text \<open>
  Claim C6, as far as the code goes. For a trained model with an interior state and its
  two end states, the naive decoder returns the start sentinel, one labelled pair for
  each pair of the sequence that does not carry an end state (same tokens, same order),
  and the stop sentinel. The label of a token is the first state of the emission table
  whose raw probability for that token is the largest of all states'. The states of the
  table are interior states. The raw probability of a token other than the text of the
  unknown token is its count under the state over the state's total count plus 1, so it
  is 0 for a state with no recorded occurrence of the token; for the text of the unknown
  token it is the state's unknown-token probability. The transition table has no
  influence on the result.
\<close>

theorem naive_decoder:
  assumes "train h obs = Inr h'" and "states h \<noteq> []" and "end_states h = [start, stop]"
  shows "(\<exists>labelled. naive_label_sequence h' sq = Inr (([], start) # labelled @ [([], stop)])
          \<and> map fst labelled = map fst (emitted h' sq)
          \<and> (\<forall>(word, state) \<in> set labelled. first_argmax h' word = Some state))
       \<and> (\<forall>(s, p) \<in> set (raw_emissions h' w).
            s \<in> set (states h)
          \<and> (w \<noteq> UNKNOWN_TOKEN \<longrightarrow>
               p = of_nat (count_list (emissions_of h (concat obs) s) w)
                   / (of_nat (length (emissions_of h (concat obs) s)) + 1))
          \<and> (w \<noteq> UNKNOWN_TOKEN \<and> w \<notin> set (emissions_of h (concat obs) s) \<longrightarrow> p = 0)
          \<and> (w = UNKNOWN_TOKEN \<longrightarrow>
               p = 1 / (of_nat (length (emissions_of h (concat obs) s)) + 1)))
       \<and> naive_label_sequence (h'\<lparr>transition_probs := tp\<rparr>) sq = naive_label_sequence h' sq"
proof -
  from train_result(1)[OF assms(1)] obtain h1 where
    e: "estimate_emission h obs 1 = Inr (emission_probs h', h1)" by blast
  from estimate_emission_result(2)[OF e] assms(2) have ne: "emission_probs h' \<noteq> []" by auto
  have ends: "end_states h' = [start, stop]"
    using train_result(4)[OF assms(1)] assms(3) by simp
  from naive_label_loop_result[OF ne, of sq "[([], start)]"] obtain labelled where
    l: "naive_label_loop h' sq [([], start)] = Inr ([([], start)] @ labelled)"
      "map fst labelled = map fst (emitted h' sq)"
      "\<forall>(word, state) \<in> set labelled. first_argmax h' word = Some state" by blast
  from ne ends l(1) have "naive_label_sequence h' sq = Inr (([], start) # labelled @ [([], stop)])"
    by (simp add: naive_label_sequence_def py_get_def)
  with l(2,3) have a: "\<exists>labelled. naive_label_sequence h' sq = Inr (([], start) # labelled @ [([], stop)])
          \<and> map fst labelled = map fst (emitted h' sq)
          \<and> (\<forall>(word, state) \<in> set labelled. first_argmax h' word = Some state)" by blast
  have b: "s \<in> set (states h)
          \<and> (w \<noteq> UNKNOWN_TOKEN \<longrightarrow>
               p = of_nat (count_list (emissions_of h (concat obs) s) w)
                   / (of_nat (length (emissions_of h (concat obs) s)) + 1))
          \<and> (w \<noteq> UNKNOWN_TOKEN \<and> w \<notin> set (emissions_of h (concat obs) s) \<longrightarrow> p = 0)
          \<and> (w = UNKNOWN_TOKEN \<longrightarrow>
               p = 1 / (of_nat (length (emissions_of h (concat obs) s)) + 1))"
    if sp: "(s, p) \<in> set (raw_emissions h' w)" for s p
  proof -
    let ?ws = "emissions_of h (concat obs) s"
    note r = trained_raw_emissions[OF assms(1) sp]
    have tok: "p = of_nat (count_list ?ws w) / (of_nat (length ?ws) + 1)" if "w \<noteq> UNKNOWN_TOKEN"
      using that r(2)
      by (simp add: dict_get0_def smoothed_row_token count_into_map_of count_into_sum)
    have zero: "p = 0" if "w \<noteq> UNKNOWN_TOKEN" "w \<notin> set ?ws"
      using that r(2) by (simp add: dict_get0_def smoothed_row_token count_into_map_of)
    have unk: "p = 1 / (of_nat (length ?ws) + 1)" if "w = UNKNOWN_TOKEN"
      using that r(2) by (simp add: dict_get0_def smoothed_row_unknown count_into_sum)
    from r(1) tok zero unk show ?thesis by blast
  qed
  have "naive_label_loop (h'\<lparr>transition_probs := tp\<rparr>) sq p = naive_label_loop h' sq p" for p
    by (rule naive_label_loop_fields) simp_all
  then have c: "naive_label_sequence (h'\<lparr>transition_probs := tp\<rparr>) sq = naive_label_sequence h' sq"
    by (simp add: naive_label_sequence_def cong: sum.case_cong)
  from a b c show ?thesis by blast
qed

theorem naive_decoder_witness:
  "train (HMM_init example_states) example_corpus = Inr example_model
   \<and> states (HMM_init example_states) \<noteq> []
   \<and> end_states (HMM_init example_states) = [''START'', ''STOP'']
   \<and> naive_label_sequence example_model [([], ''START''), (''y'', []), (''z'', []), ([], ''STOP'')]
       = Inr [([], ''START''), (''y'', ''B''), (''z'', ''A''), ([], ''STOP'')]
   \<and> first_argmax example_model ''y'' = Some ''B''
   \<and> raw_emissions example_model ''z'' = [(''A'', 0), (''B'', 0)]
   \<and> first_argmax example_model ''z'' = Some ''A''
   \<and> naive_label_sequence (example_model\<lparr>transition_probs := []\<rparr>)
         [([], ''START''), (''y'', []), (''z'', []), ([], ''STOP'')]
       = Inr [([], ''START''), (''y'', ''B''), (''z'', ''A''), ([], ''STOP'')]"
proof -
  let ?sq = "[([], ''START''), (''y'', []), (''z'', []), ([], ''STOP'')] :: sequence"
  have n: "states (HMM_init example_states) \<noteq> []" by code_simp
  have e: "end_states (HMM_init example_states) = [''START'', ''STOP'']" by code_simp
  have r: "naive_label_sequence example_model ?sq
       = Inr [([], ''START''), (''y'', ''B''), (''z'', ''A''), ([], ''STOP'')]" by code_simp
  have f: "first_argmax example_model ''y'' = Some ''B''"
    "raw_emissions example_model ''z'' = [(''A'', 0), (''B'', 0)]"
    "first_argmax example_model ''z'' = Some ''A''" by code_simp+
  from naive_decoder[OF example_trained n e, of ?sq "''z''" "[]"]
  have "naive_label_sequence (example_model\<lparr>transition_probs := []\<rparr>) ?sq
      = naive_label_sequence example_model ?sq" by blast
  with example_trained n e r f show ?thesis by simp
qed

text \<open>
  The claim as it is written gives every state with no recorded occurrence of a token
  the probability 0 for it. For the text of the unknown token that fails: no sequence of
  \<open>skew_corpus\<close> contains it, the states contribute their unknown-token probabilities
  \<open>1 / 4\<close> and \<open>1 / 3\<close>, and the label is \<open>B\<close>, not the first state \<open>A\<close> of a tie at 0.
\<close>

theorem naive_decoder_counterexample:
  "count_list (emissions_of (HMM_init example_states) (concat skew_corpus) ''A'') ''#UNK#'' = 0
   \<and> count_list (emissions_of (HMM_init example_states) (concat skew_corpus) ''B'') ''#UNK#'' = 0
   \<and> (case train (HMM_init example_states) skew_corpus of
         Inl e \<Rightarrow> Inl e
       | Inr h \<Rightarrow>
           Inr (raw_emissions h ''#UNK#'',
                naive_label_sequence h [([], ''START''), (''#UNK#'', []), ([], ''STOP'')]))
       = Inr ([(''A'', 1 / 4), (''B'', 1 / 3)],
              Inr [([], ''START''), (''#UNK#'', ''B''), ([], ''STOP'')])"
  by code_simp

section \<open>The scaling constant of the Viterbi decoder\<close>























end
